theory Spec2Isabelle
  imports Complex_Main
begin

section \<open>Numbers, characters and strings\<close>

text \<open>
  The program computes with JavaScript numbers, which are IEEE doubles. They are modelled
  as exact reals. The two agree on sums and differences of integers up to \<open>2^53\<close>, and
  \<open>Math.round\<close>, \<open>Math.floor\<close> and \<open>Math.max\<close> are exact on every double; elsewhere a
  double result is the nearest double to the real one. A property that needs an exact
  result is therefore stated for integers up to \<open>2^53\<close>, and a property of a rounded
  product is stated up to the error of the doubles. Not-a-number is modelled as \<open>None\<close>
  where the source tests for it (\<open>parsePriceToNumber\<close>). \<open>Math.round\<close> rounds to the
  nearest integer, a tie going up.
\<close>

definition js_round :: "real \<Rightarrow> real" where
  "js_round x = of_int \<lfloor>x + 1 / 2\<rfloor>"

definition js_floor :: "real \<Rightarrow> real" where
  "js_floor x = of_int \<lfloor>x\<rfloor>"

text \<open>
  \<open>Math.random\<close> is a source of draws: the \<open>k\<close>-th call of a function returns
  \<open>rnd k\<close>. The platform promises \<open>0 \<le> rnd k < 1\<close>.
\<close>

type_synonym random_source = "nat \<Rightarrow> real"

definition valid_random :: "random_source \<Rightarrow> bool" where
  "valid_random rnd = (\<forall>k. 0 \<le> rnd k \<and> rnd k < 1)"

definition const_draws :: "real \<Rightarrow> random_source" where
  "const_draws c = (\<lambda>k. c)"

definition isDigit :: "char \<Rightarrow> bool" where
  "isDigit c = (c \<in> set ''0123456789'')"

text \<open>
  The value of a digit is its position in the text \<open>0123456789\<close>; the function is only
  applied to digits.
\<close>

definition digit_val :: "char \<Rightarrow> nat" where
  "digit_val c = length (takeWhile (\<lambda>d. d \<noteq> c) ''0123456789'')"

definition digits_value :: "string \<Rightarrow> nat" where
  "digits_value ds = foldl (\<lambda>a c. 10 * a + digit_val c) 0 ds"

text \<open>
  \<open>parseFloat\<close> on the text that is left once everything but digits and the decimal
  point has been removed: it reads the longest prefix that is a decimal literal
  (digits, then optionally a point and more digits; or a point and at least one digit)
  and yields not-a-number (\<open>None\<close>) when there is no such prefix; otherwise its value
  is that of the literal. Signs, exponents, white space and \<open>Infinity\<close> cannot occur in
  that text.
\<close>

definition parseFloat :: "string \<Rightarrow> real option" where
  "parseFloat s =
     (let ip = takeWhile isDigit s; rest = dropWhile isDigit s
      in case rest of
           c # r \<Rightarrow>
             if c = CHR ''.'' then
               (let fp = takeWhile isDigit r
                in if ip = [] \<and> fp = [] then None
                   else Some (real (digits_value ip) + real (digits_value fp) / 10 ^ length fp))
             else if ip = [] then None else Some (real (digits_value ip))
         | [] \<Rightarrow> if ip = [] then None else Some (real (digits_value ip)))"

text \<open>The regular expression \<open>/[^0-9.]/g\<close> keeps exactly these characters.\<close>

definition numeric_char :: "char \<Rightarrow> bool" where
  "numeric_char c = (isDigit c \<or> c = CHR ''.'')"

text \<open>\<open>parsePriceToNumber\<close>; an absent argument is \<open>None\<close>, and so is the result \<open>null\<close>.\<close>

definition parsePriceToNumber :: "string option \<Rightarrow> real option" where
  "parsePriceToNumber priceStr =
     (case priceStr of
        None \<Rightarrow> None
      | Some s \<Rightarrow>
          if s = [] then None
          else (let numeric = filter numeric_char s in parseFloat numeric))"

text \<open>
  Product names are strings of 8-bit characters; \<open>toLowerCase\<close> is modelled on the
  ASCII letters, the only ones the keyword table mentions.
\<close>

definition lower_char :: "char \<Rightarrow> char" where
  "lower_char c =
     (case map_of (zip ''ABCDEFGHIJKLMNOPQRSTUVWXYZ'' ''abcdefghijklmnopqrstuvwxyz'') c of
        Some l \<Rightarrow> l
      | None \<Rightarrow> c)"

definition toLowerCase :: "string \<Rightarrow> string" where
  "toLowerCase s = map lower_char s"

fun startsWith :: "string \<Rightarrow> string \<Rightarrow> bool" where
  "startsWith s [] = True"
| "startsWith [] (c # cs) = False"
| "startsWith (x # xs) (c # cs) = (x = c \<and> startsWith xs cs)"

fun js_includes :: "string \<Rightarrow> string \<Rightarrow> bool" where
  "js_includes [] sub = (sub = [])"
| "js_includes (x # xs) sub = (startsWith (x # xs) sub \<or> js_includes xs sub)"


section \<open>The session state and the history reconciler (product-context.tsx)\<close>

text \<open>
  A calendar day, which the source renders as the text \<open>YYYY-MM-DD\<close>, is modelled by
  its day number (days since 1970-01-01); an instant (\<open>new Date().toISOString()\<close>) by
  its milliseconds. The reconciler never looks at the date, so the point type is
  polymorphic in it.
\<close>

record 'd PricePoint =
  date :: 'd
  price :: real

record 'd HistoryItem = "'d PricePoint" +
  volume :: real

record SerpProduct =
  title :: string
  price :: string
  original_price :: "string option"
  rating :: "real option"
  reviews :: "real option"
  image :: "string option"
  link :: string
  source :: string
  availability :: string

record ProductState =
  selectedProduct :: string
  selectedProductDetails :: "SerpProduct option"
  currentPrice :: "real option"
  priceHistory :: "int PricePoint list"
  lastUpdated :: "int option"

datatype js_error = Thrown string

text \<open>Line 66: every fetched point is clamped and rounded; extra fields are dropped.\<close>

definition mapped_of :: "('d, 'a) PricePoint_scheme list \<Rightarrow> 'd PricePoint list" where
  "mapped_of history =
     map (\<lambda>h. \<lparr>PricePoint.date = PricePoint.date h,
               price = max 0 (js_round (PricePoint.price h))\<rparr>) history"

text \<open>
  Lines 69 to 76: the series is shifted so that its last point meets the parsed price,
  and the last point is then overwritten with that price.
\<close>

definition align :: "real option \<Rightarrow> 'd PricePoint list \<Rightarrow> 'd PricePoint list" where
  "align parsed mapped =
     (case parsed of
        None \<Rightarrow> mapped
      | Some cur \<Rightarrow>
          if length mapped > 0 then
            (let lastPrice = PricePoint.price (mapped ! (length mapped - 1));
                 offset = cur - lastPrice;
                 adjusted = map (\<lambda>p. \<lparr>PricePoint.date = PricePoint.date p,
                                  price = max 0 (js_round (PricePoint.price p + offset))\<rparr>) mapped
             in adjusted[length adjusted - 1 :=
                  (adjusted ! (length adjusted - 1))\<lparr>PricePoint.price := cur\<rparr>])
          else mapped)"

definition reconcile :: "real option \<Rightarrow> ('d, 'a) PricePoint_scheme list \<Rightarrow> 'd PricePoint list" where
  "reconcile parsed history = align parsed (mapped_of history)"

text \<open>
  Dates. The source reads the clock (\<open>new Date()\<close>), moves the day of the month in
  local time (\<open>d.setDate(d.getDate() - n)\<close>, which keeps the local time of day) and
  prints the day in UTC (\<open>d.toISOString().split('T')[0]\<close>). A reading of the clock is
  the local day number of the instant, its local time of day in milliseconds, and the
  zone: the offset from UTC, in milliseconds, in force at that time of day on a given
  local day. The instant with local day \<open>d\<close> and time of day \<open>t\<close> is
  \<open>d * 86400000 + t - offset\<close> in UTC, and its UTC day is the quotient by a day.
\<close>

record Clock =
  localDay :: int
  timeOfDay :: int
  zoneOffset :: "int \<Rightarrow> int"

definition iso_day_back :: "Clock \<Rightarrow> int \<Rightarrow> int" where
  "iso_day_back c n =
     (let d = localDay c - n
      in d + (timeOfDay c - zoneOffset c d) div 86400000)"

text \<open>Lines 82 to 88: the loop \<open>for (i = 5; i >= 0; i--)\<close>, seven days a step.\<close>

fun fallback_loop :: "Clock \<Rightarrow> real \<Rightarrow> nat \<Rightarrow> int PricePoint list" where
  "fallback_loop today p 0 = [\<lparr>PricePoint.date = iso_day_back today (0 * 7), price = p\<rparr>]"
| "fallback_loop today p (Suc i) =
     \<lparr>PricePoint.date = iso_day_back today (int (Suc i) * 7), price = p\<rparr>
       # fallback_loop today p i"

text \<open>\<open>parsed || 0\<close>: \<open>null\<close> and \<open>0\<close> both give \<open>0\<close>.\<close>

definition or_zero :: "real option \<Rightarrow> real" where
  "or_zero parsed = (case parsed of None \<Rightarrow> 0 | Some v \<Rightarrow> if v = 0 then 0 else v)"

definition fallback_series :: "real option \<Rightarrow> Clock \<Rightarrow> int PricePoint list" where
  "fallback_series parsed today = fallback_loop today (or_zero parsed) 5"

text \<open>
  \<open>startTracking\<close>. The awaited history is an argument: \<open>Inl e\<close> when the fetch threw,
  \<open>Inr history\<close> when it returned. \<open>today\<close> is the reading of the clock of line 82,
  \<open>now\<close> the instant of the \<open>new Date()\<close> that stamps \<open>lastUpdated\<close>. The result is
  \<open>Inl\<close> where the function would throw to its caller.
\<close>

definition startTracking ::
  "SerpProduct \<Rightarrow> js_error + (int, 'a) PricePoint_scheme list \<Rightarrow> Clock \<Rightarrow> int \<Rightarrow>
   ProductState \<Rightarrow> js_error + ProductState" where
  "startTracking product fetched today now st =
     (let st1 = st\<lparr>selectedProduct := title product, selectedProductDetails := Some product\<rparr>;
          parsed = parsePriceToNumber (Some (SerpProduct.price product));
          st2 = (case parsed of Some v \<Rightarrow> st1\<lparr>currentPrice := Some v\<rparr> | None \<Rightarrow> st1)
      in case fetched of
           Inr history \<Rightarrow>
             Inr (st2\<lparr>priceHistory := reconcile parsed history, lastUpdated := Some now\<rparr>)
         | Inl e \<Rightarrow>
             Inr (st2\<lparr>priceHistory := fallback_series parsed today, lastUpdated := Some now\<rparr>))"


section \<open>The synthetic chart series (PriceChart.tsx)\<close>

record PriceDataPoint =
  date :: string
  price :: "real option"
  prediction :: "real option"

text \<open>
  Lines 19 to 65: the ordered keyword table. The first branch whose keyword occurs in
  the lower-cased name gives the base price; 1000 is the default.
\<close>

definition basePrice :: "string \<Rightarrow> real" where
  "basePrice productName =
     (let n = toLowerCase productName in
        if js_includes n ''iphone'' \<or> js_includes n ''samsung'' then 50000
        else if js_includes n ''macbook'' \<or> js_includes n ''laptop'' then 80000
        else if js_includes n ''headphone'' \<or> js_includes n ''earbud'' then 3000
        else if js_includes n ''watch'' \<or> js_includes n ''smartwatch'' then 15000
        else if js_includes n ''tablet'' \<or> js_includes n ''ipad'' then 25000
        else if js_includes n ''camera'' then 20000
        else if js_includes n ''gaming'' \<or> js_includes n ''console'' then 35000
        else if js_includes n ''tv'' \<or> js_includes n ''television'' then 40000
        else if js_includes n ''book'' \<or> js_includes n ''novel'' then 500
        else if js_includes n ''shirt'' \<or> js_includes n ''dress'' then 1500
        else if js_includes n ''shoe'' \<or> js_includes n ''sneaker'' then 2500
        else if js_includes n ''airpods'' \<or> js_includes n ''wireless'' then 8000
        else if js_includes n ''monitor'' \<or> js_includes n ''display'' then 12000
        else if js_includes n ''keyboard'' \<or> js_includes n ''mouse'' then 2000
        else if js_includes n ''speaker'' \<or> js_includes n ''soundbar'' then 5000
        else if js_includes n ''fridge'' \<or> js_includes n ''refrigerator'' then 30000
        else if js_includes n ''washing'' \<or> js_includes n ''machine'' then 25000
        else if js_includes n ''microwave'' \<or> js_includes n ''oven'' then 8000
        else if js_includes n ''furniture'' \<or> js_includes n ''sofa'' then 15000
        else if js_includes n ''toy'' \<or> js_includes n ''game'' then 800
        else if js_includes n ''cosmetic'' \<or> js_includes n ''beauty'' then 1200
        else if js_includes n ''food'' \<or> js_includes n ''snack'' then 200
        else 1000)"

definition historicalMonths :: "string list" where
  "historicalMonths = [''Jan'', ''Feb'', ''Mar'', ''Apr'', ''May'', ''Jun'', ''Jul'', ''Aug'']"

definition predictionMonths :: "string list" where
  "predictionMonths = [''Sep'', ''Oct'', ''Nov'', ''Dec'']"

text \<open>
  Lines 73 to 85: the random walk over the historical months. \<open>k\<close> counts the calls of
  \<open>Math.random\<close> made so far; \<open>curPrice\<close> is the source's running \<open>currentPrice\<close>, which
  the result carries out of the loop.
\<close>

fun historical_loop ::
  "random_source \<Rightarrow> nat \<Rightarrow> real \<Rightarrow> string list \<Rightarrow> PriceDataPoint list \<times> real" where
  "historical_loop rnd k curPrice [] = ([], curPrice)"
| "historical_loop rnd k curPrice (month # rest) =
     (let variation = (rnd k - 1 / 2) * (3 / 10);
          newPrice = js_round (curPrice * (1 + variation));
          (points, final) = historical_loop rnd (Suc k) newPrice rest
      in (\<lparr>date = month, price = Some newPrice, prediction = None\<rparr> # points, final))"

text \<open>
  Lines 89 to 99: the prediction months. \<open>curPrice\<close> is not assigned in this loop:
  every prediction starts from the last historical price.
\<close>

fun prediction_loop ::
  "random_source \<Rightarrow> nat \<Rightarrow> real \<Rightarrow> nat \<Rightarrow> string list \<Rightarrow> PriceDataPoint list" where
  "prediction_loop rnd k curPrice index [] = []"
| "prediction_loop rnd k curPrice index (month # rest) =
     (let trend = - (2 / 100) * (real index + 1);
          pred = js_round (curPrice * (1 + trend + (rnd k - 1 / 2) * (1 / 10)))
      in \<lparr>date = month, price = None, prediction = Some pred\<rparr>
           # prediction_loop rnd (Suc k) curPrice (Suc index) rest)"

definition generatePriceData :: "string \<Rightarrow> random_source \<Rightarrow> PriceDataPoint list" where
  "generatePriceData productName rnd =
     (let (historicalData, curPrice) = historical_loop rnd 0 (basePrice productName) historicalMonths
      in historicalData @ prediction_loop rnd (length historicalMonths) curPrice 0 predictionMonths)"

text \<open>
  \<open>projectFromHistory\<close>, lines 105 to 151. The historical slice and the forecast are
  first computed as pairs of a label index and a value, so that the index of every read
  of the month table is a value of the model; the chart points are built from the pairs.
\<close>

definition months :: "string list" where
  "months = [''Jan'', ''Feb'', ''Mar'', ''Apr'', ''May'', ''Jun'',
             ''Jul'', ''Aug'', ''Sep'', ''Oct'', ''Nov'', ''Dec'']"

text \<open>\<open>months[j]\<close>: a read outside the table gives \<open>undefined\<close>, here \<open>None\<close>.\<close>

definition month_at :: "int \<Rightarrow> string option" where
  "month_at j = (if 0 \<le> j \<and> j < int (length months) then Some (months ! nat j) else None)"

definition label_of :: "int \<Rightarrow> string" where
  "label_of j = (case month_at j of Some m \<Rightarrow> m | None \<Rightarrow> ''undefined'')"

text \<open>\<open>xs.slice(-n)\<close>: the last \<open>n\<close> elements, all of them when there are fewer.\<close>

definition slice_last :: "nat \<Rightarrow> 'a list \<Rightarrow> 'a list" where
  "slice_last n xs = drop (length xs - n) xs"

text \<open>\<open>xs.reduce((a, b) => a + b, 0)\<close>\<close>

definition js_sum :: "real list \<Rightarrow> real" where
  "js_sum xs = foldl (+) 0 xs"

definition avg_of :: "real list \<Rightarrow> real" where
  "avg_of prices = js_sum prices / real (length prices)"

definition diffs_of :: "real list \<Rightarrow> real list" where
  "diffs_of prices =
     drop 1 (map (\<lambda>i. if i = 0 then 0 else prices ! i - prices ! (i - 1)) [0..<length prices])"

definition avgStep_of :: "real list \<Rightarrow> real" where
  "avgStep_of prices =
     (let diffs = diffs_of prices
      in if length diffs \<noteq> 0 then js_sum diffs / real (length diffs) else 0)"

text \<open>Lines 121 to 129: one label per point of the slice, stopping at the table's end.\<close>

fun historical_labels :: "nat \<Rightarrow> ('d, 'a) PricePoint_scheme list \<Rightarrow> (int \<times> real) list" where
  "historical_labels i [] = []"
| "historical_labels i (p # ps) =
     (let monthIndex = i
      in if monthIndex \<ge> length months then []
         else (int monthIndex, PricePoint.price p) # historical_labels (Suc i) ps)"

text \<open>
  The body of the forecast loop, lines 137 to 145. The drift branch calls
  \<open>Math.random\<close> once in every iteration and the target branch never does; which branch
  runs does not change during the loop, so iteration \<open>i\<close> of the drift branch makes
  call number \<open>i - 1\<close>.
\<close>

definition forecast_step ::
  "real option \<Rightarrow> real \<Rightarrow> real \<Rightarrow> random_source \<Rightarrow> nat \<Rightarrow> real \<Rightarrow> real" where
  "forecast_step projectionTargetPrice avgStep avg rnd i current =
     (let drift = max 0 (js_round (current + avgStep * (8 / 10)
                                    + (rnd (i - 1) - 1 / 2) * \<bar>avg\<bar> * (2 / 100)))
      in case projectionTargetPrice of
           None \<Rightarrow> drift
         | Some target \<Rightarrow>
             if target \<ge> 0 then
               (let remaining = target - current;
                    step = remaining / (4 - real i)
                in max 0 (js_round (current + step)))
             else drift)"

function forecast_loop ::
  "real option \<Rightarrow> real \<Rightarrow> real \<Rightarrow> random_source \<Rightarrow> int \<Rightarrow> nat \<Rightarrow> real \<Rightarrow> (int \<times> real) list" where
  "forecast_loop projectionTargetPrice avgStep avg rnd currentLabelIndex i current =
     (if i \<le> 3 \<and> currentLabelIndex + int i < int (length months) then
        (let current' = forecast_step projectionTargetPrice avgStep avg rnd i current;
             nextLabelIndex = currentLabelIndex + int i
         in (nextLabelIndex, current')
              # forecast_loop projectionTargetPrice avgStep avg rnd currentLabelIndex (Suc i) current')
      else [])"
  by pat_completeness auto
termination
  by (relation "measure (\<lambda>(t, s, a, r, c, i, cur). 4 - i)") auto

declare forecast_loop.simps [simp del]

text \<open>
  The two halves of the result, \<open>historical\<close> and \<open>preds\<close> of the source. The source
  computes them after its guard, for a non-empty history only.
\<close>

definition historical_of :: "('d, 'a) PricePoint_scheme list \<Rightarrow> (int \<times> real) list" where
  "historical_of history = historical_labels 0 (slice_last 8 history)"

definition preds_of ::
  "('d, 'a) PricePoint_scheme list \<Rightarrow> real option \<Rightarrow> random_source \<Rightarrow> (int \<times> real) list" where
  "preds_of history projectionTargetPrice rnd =
     (let recent = slice_last 8 history;
          prices = map PricePoint.price recent;
          avg = avg_of prices;
          avgStep = avgStep_of prices;
          historical = historical_labels 0 recent;
          last = (case prices of [] \<Rightarrow> avg | _ # _ \<Rightarrow> prices ! (length prices - 1));
          currentLabelIndex = int (length historical) - 1
      in forecast_loop projectionTargetPrice avgStep avg rnd currentLabelIndex 1 last)"

definition projectFromHistory ::
  "('d, 'a) PricePoint_scheme list \<Rightarrow> real option \<Rightarrow> random_source \<Rightarrow> PriceDataPoint list" where
  "projectFromHistory history projectionTargetPrice rnd =
     (if length history = 0 then []
      else map (\<lambda>(j, v). \<lparr>date = label_of j, price = Some v, prediction = None\<rparr>)
               (historical_of history)
           @ map (\<lambda>(j, v). \<lparr>date = label_of j, price = None, prediction = Some v\<rparr>)
               (preds_of history projectionTargetPrice rnd))"


section \<open>The day-count history (serp-api.ts)\<close>

text \<open>
  \<open>getPriceHistory\<close>, lines 273 to 291. The first draw fixes the base price; every
  iteration of \<open>for (i = days; i >= 0; i--)\<close> then draws twice, for the price and for
  the volume. Every iteration reads the clock anew (\<open>new Date()\<close>); the readings of one
  call are taken to be one reading, \<open>today\<close>.
\<close>

function getPriceHistory_loop ::
  "random_source \<Rightarrow> Clock \<Rightarrow> real \<Rightarrow> nat \<Rightarrow> int \<Rightarrow> int HistoryItem list" where
  "getPriceHistory_loop rnd today base k i =
     (if i \<ge> 0 then
        \<lparr>PricePoint.date = iso_day_back today i,
         price = base + js_floor (rnd k * 1000) - 500,
         volume = js_floor (rnd (Suc k) * 100) + 10\<rparr>
          # getPriceHistory_loop rnd today base (k + 2) (i - 1)
      else [])"
  by pat_completeness auto
termination
  by (relation "measure (\<lambda>(r, t, b, k, i). nat (i + 1))") auto

declare getPriceHistory_loop.simps [simp del]

definition history_base :: "random_source \<Rightarrow> real" where
  "history_base rnd = js_floor (rnd 0 * 50000) + 20000"

definition getPriceHistory ::
  "string \<Rightarrow> int \<Rightarrow> random_source \<Rightarrow> Clock \<Rightarrow> int HistoryItem list" where
  "getPriceHistory productName days rnd today =
     getPriceHistory_loop rnd today (history_base rnd) 1 days"


section \<open>Concrete inputs and auxiliary predicates\<close>

text \<open>The series of the specification's reconciler scenario, with its dates as text.\<close>

definition spec_series :: "string PricePoint list" where
  "spec_series = [\<lparr>PricePoint.date = ''2024-01-01'', price = 1000\<rparr>,
                  \<lparr>PricePoint.date = ''2024-01-08'', price = 1050\<rparr>]"

text \<open>
  The texts on which \<open>parseFloat\<close> finds a number: those that start with a digit, or
  with a point that a digit follows.
\<close>

definition leading_number :: "string \<Rightarrow> bool" where
  "leading_number t =
     (case t of
        [] \<Rightarrow> False
      | c # r \<Rightarrow> isDigit c \<or> (c = CHR ''.'' \<and> (case r of [] \<Rightarrow> False | d # _ \<Rightarrow> isDigit d)))"


text \<open>
  A source of draws that leaves the eight historical months at the base price
  (a draw of \<open>1/2\<close> is a variation of zero) and then draws \<open>0\<close>, \<open>0.99\<close>, \<open>1/2\<close>
  and \<open>0\<close> for the four prediction months.
\<close>

definition drift_draws :: random_source where
  "drift_draws k = (if k < 8 then 1 / 2 else if k = 9 then 99 / 100 else if k = 10 then 1 / 2 else 0)"


text \<open>
  A product as \<open>generateMockProducts\<close> lists them, with an ASCII currency mark, and the
  state the provider starts from.
\<close>

definition sample_product :: SerpProduct where
  "sample_product =
     \<lparr>title = ''Phone - Premium Model'', price = ''Rs 89,999'',
      original_price = Some ''Rs 99,999'', rating = Some (9 / 2), reviews = Some 128,
      image = None, link = ''https://example.com/product1'', source = ''Amazon'',
      availability = ''In Stock''\<rparr>"

text \<open>
  Two readings of the clock. The first is noon in a zone that is always at UTC, on
  2024-11-01 (day 20028). The second is 2024-11-01 at 01:30 in the zone Europe/Berlin,
  that is 00:30 UTC: the zone is two hours ahead of UTC up to the night of 2024-10-27
  (day 20023, whose 01:30 is still summer time) and one hour ahead after it; the
  offsets are those of the days from April 2024 to March 2025.
\<close>

definition utc_noon_clock :: Clock where
  "utc_noon_clock = \<lparr>localDay = 20028, timeOfDay = 43200000, zoneOffset = (\<lambda>d. 0)\<rparr>"

definition berlin_clock :: Clock where
  "berlin_clock =
     \<lparr>localDay = 20028, timeOfDay = 5400000,
      zoneOffset = (\<lambda>d. if d \<le> 20023 then 7200000 else 3600000)\<rparr>"

text \<open>
  A third reading: 2024-04-05 (day 19818) at 01:30 in Europe/Berlin, five days after the
  start of summer time on 2024-03-31 (day 19813, whose 01:30 is still winter time).
\<close>

definition berlin_spring_clock :: Clock where
  "berlin_spring_clock =
     \<lparr>localDay = 19818, timeOfDay = 5400000,
      zoneOffset = (\<lambda>d. if d \<le> 19813 then 3600000 else 7200000)\<rparr>"

text \<open>
  The offset that line 72 computes: the current price minus the last price of the series
  it is given.
\<close>

definition offset_of :: "real \<Rightarrow> 'd PricePoint list \<Rightarrow> real" where
  "offset_of cur mapped = cur - PricePoint.price (mapped ! (length mapped - 1))"

definition initial_state :: ProductState where
  "initial_state =
     \<lparr>selectedProduct = '''', selectedProductDetails = None, currentPrice = None,
      priceHistory = [], lastUpdated = None\<rparr>"


section \<open>Properties of the price parser\<close>

lemma not_isDigit_dot: "\<not> isDigit (CHR ''.'')"
  by (simp add: isDigit_def)

lemma parseFloat_nonneg: "parseFloat t = Some v \<Longrightarrow> 0 \<le> v"
  by (auto simp add: parseFloat_def Let_def split: list.splits if_splits)

lemma parseFloat_leading:
  assumes "leading_number t"
  shows "parseFloat t \<noteq> None"
proof (cases t)
  case Nil
  with assms show ?thesis by (simp add: leading_number_def)
next
  case (Cons c r)
  show ?thesis
  proof (cases "isDigit c")
    case True
    then have "takeWhile isDigit t \<noteq> []" using Cons by simp
    then show ?thesis
      by (auto simp add: parseFloat_def Let_def split: list.splits)
  next
    case False
    with assms Cons obtain d r' where r: "c = CHR ''.''" "r = d # r'" "isDigit d"
      by (auto simp add: leading_number_def split: list.splits)
    then show ?thesis
      using Cons by (simp add: parseFloat_def Let_def not_isDigit_dot)
  qed
qed

lemma parseFloat_not_leading:
  assumes "\<not> leading_number t" and "\<forall>c \<in> set t. numeric_char c"
  shows "parseFloat t = None"
proof (cases t)
  case Nil
  then show ?thesis by (simp add: parseFloat_def)
next
  case (Cons c r)
  with assms have c: "\<not> isDigit c" "c = CHR ''.''"
    by (auto simp add: leading_number_def numeric_char_def)
  have "takeWhile isDigit r = []"
    using assms(1) Cons c by (cases r) (auto simp add: leading_number_def)
  then show ?thesis
    using Cons c by (simp add: parseFloat_def Let_def)
qed

lemma no_digit_not_leading:
  "\<forall>c \<in> set s. \<not> isDigit c \<Longrightarrow> \<not> leading_number (filter numeric_char s)"
proof -
  assume a: "\<forall>c \<in> set s. \<not> isDigit c"
  have "\<forall>c \<in> set (filter numeric_char s). \<not> isDigit c" using a by simp
  then show ?thesis
    by (cases "filter numeric_char s"; cases "tl (filter numeric_char s)")
       (auto simp add: leading_number_def)
qed

text \<open>
  Claim C5, as the code has it. An absent argument gives no value. A text with no digit
  gives no value. A text whose remainder, once everything but digits and points is
  removed, starts with a digit or with a point followed by a digit gives a number that
  is not negative. Every other text gives no value, and never zero; such a text can
  contain digits.
\<close>

theorem parsePriceToNumber_cases:
  "parsePriceToNumber None = None
   \<and> ((\<forall>c \<in> set s. \<not> isDigit c) \<longrightarrow> parsePriceToNumber (Some s) = None)
   \<and> (leading_number (filter numeric_char s) \<longrightarrow>
        (\<exists>v. parsePriceToNumber (Some s) = Some v \<and> 0 \<le> v))
   \<and> (\<not> leading_number (filter numeric_char s) \<longrightarrow> parsePriceToNumber (Some s) = None)"
proof -
  let ?t = "filter numeric_char s"
  have none: "parsePriceToNumber (Some s) = None" if "\<not> leading_number ?t"
    using parseFloat_not_leading [OF that] by (simp add: parsePriceToNumber_def)
  have some: "\<exists>v. parsePriceToNumber (Some s) = Some v \<and> 0 \<le> v" if lead: "leading_number ?t"
  proof -
    from lead have "s \<noteq> []" by (auto simp add: leading_number_def)
    moreover obtain v where "parseFloat ?t = Some v"
      using parseFloat_leading [OF lead] by auto
    ultimately show ?thesis
      using parseFloat_nonneg by (auto simp add: parsePriceToNumber_def)
  qed
  show ?thesis
    using none some no_digit_not_leading [of s] by (simp add: parsePriceToNumber_def)
qed

lemmas parse_eval = parsePriceToNumber_def parseFloat_def numeric_char_def isDigit_def
  digits_value_def digit_val_def leading_number_def

theorem parsePriceToNumber_cases_witness:
  "leading_number (filter numeric_char ''Rs 89,999'')
   \<and> parsePriceToNumber (Some ''Rs 89,999'') = Some 89999
   \<and> \<not> list_ex isDigit ''Price not available''
   \<and> parsePriceToNumber (Some ''Price not available'') = None
   \<and> \<not> leading_number (filter numeric_char ''e.g. 5'')
   \<and> parsePriceToNumber (Some ''e.g. 5'') = None
   \<and> parsePriceToNumber None = None"
  using parsePriceToNumber_cases [of "''Rs 89,999''"]
    parsePriceToNumber_cases [of "''Price not available''"]
    parsePriceToNumber_cases [of "''e.g. 5''"]
  by (simp add: parse_eval)

text \<open>
  The text \<open>U.S. $5\<close> contains a digit; what is left of it is \<open>..5\<close>, in which
  \<open>parseFloat\<close> finds no number, so the parser gives no value where claim C5 promises
  a number.
\<close>

theorem parsePriceToNumber_digit_counterexample:
  "CHR ''5'' \<in> set ''U.S. $5'' \<and> isDigit (CHR ''5'')
   \<and> filter numeric_char ''U.S. $5'' = ''..5''
   \<and> parsePriceToNumber (Some ''U.S. $5'') = None"
  by (simp add: parsePriceToNumber_def parseFloat_def numeric_char_def isDigit_def)


section \<open>Properties of the reconciler\<close>


lemma js_round_int_shift:
  assumes "- (1 / 2) \<le> d" and "d < 1 / 2"
  shows "js_round (of_int z + d) = of_int z"
proof -
  have "\<lfloor>of_int z + d + 1 / 2\<rfloor> = z"
    using assms by (intro floor_unique) auto
  then show ?thesis by (simp add: js_round_def)
qed

lemma js_round_offset_bounds: "- (1 / 2) \<le> x - js_round x \<and> x - js_round x < 1 / 2"
  unfolding js_round_def by linarith

lemma js_round_nonneg: "0 \<le> x \<Longrightarrow> 0 \<le> js_round x"
  unfolding js_round_def by simp

lemma clamp_round_Ints: "max 0 (js_round x) \<in> \<int>"
  unfolding js_round_def max_def by simp

lemma clamp_round_nonneg: "0 \<le> max 0 (js_round x)"
  by simp

lemma length_mapped_of: "length (mapped_of h) = length h"
  by (simp add: mapped_of_def)

lemma length_align: "length (align parsed m) = length m"
  by (simp add: align_def Let_def split: option.splits)

lemma length_reconcile: "length (reconcile parsed h) = length h"
  by (simp add: reconcile_def length_align length_mapped_of)

lemma date_align: "i < length m \<Longrightarrow> PricePoint.date (align parsed m ! i) = PricePoint.date (m ! i)"
  by (auto simp add: align_def Let_def nth_list_update split: option.splits)

lemma price_align_last:
  "m \<noteq> [] \<Longrightarrow> PricePoint.price (align (Some cur) m ! (length m - 1)) = cur"
  by (simp add: align_def Let_def)

lemma price_align_other:
  "i < length m - 1 \<Longrightarrow>
   PricePoint.price (align (Some cur) m ! i) =
     max 0 (js_round (PricePoint.price (m ! i) + (cur - PricePoint.price (m ! (length m - 1)))))"
  by (cases "m = []") (simp_all add: align_def Let_def)

text \<open>
  Claim C1. For every raw series with at least one point and every known current price
  that is not negative, the reconciled series has the length and the dates of the raw
  one, in the same order; its last price is the current price itself; every other price
  is the raw one clamped and rounded, shifted by the common offset, clamped and rounded
  again, hence a non-negative integer.
\<close>

theorem reconcile_meets_current_price:
  assumes "length history \<ge> 1" and "cur \<ge> 0"
  shows "length (reconcile (Some cur) history) = length history
       \<and> map PricePoint.date (reconcile (Some cur) history) = map PricePoint.date history
       \<and> PricePoint.price (last (reconcile (Some cur) history)) = cur
       \<and> (\<forall>i < length history - 1.
             PricePoint.price (reconcile (Some cur) history ! i) =
               max 0 (js_round (max 0 (js_round (PricePoint.price (history ! i)))
                                + (cur - max 0 (js_round (PricePoint.price (last history))))))
           \<and> 0 \<le> PricePoint.price (reconcile (Some cur) history ! i)
           \<and> PricePoint.price (reconcile (Some cur) history ! i) \<in> \<int>)"
proof -
  let ?m = "mapped_of history"
  let ?out = "reconcile (Some cur) history"
  have len: "length ?out = length history"
    by (rule length_reconcile)
  have lm: "length ?m = length history"
    by (rule length_mapped_of)
  have ne: "history \<noteq> []" "?m \<noteq> []" "?out \<noteq> []"
    using assms(1) lm len by auto
  have dates: "map PricePoint.date ?out = map PricePoint.date history"
  proof (rule nth_equalityI)
    show "length (map PricePoint.date ?out) = length (map PricePoint.date history)"
      by (simp add: len)
  next
    fix i assume "i < length (map PricePoint.date ?out)"
    then have i: "i < length history" by (simp add: len)
    then have "PricePoint.date (?out ! i) = PricePoint.date (?m ! i)"
      unfolding reconcile_def by (simp add: date_align lm)
    also have "\<dots> = PricePoint.date (history ! i)"
      using i by (simp add: mapped_of_def)
    finally show "map PricePoint.date ?out ! i = map PricePoint.date history ! i"
      using i by (simp add: len)
  qed
  have lastp: "PricePoint.price (last ?out) = cur"
    using price_align_last [OF ne(2), of cur] ne(3)
    by (simp add: last_conv_nth reconcile_def length_align lm)
  have others: "PricePoint.price (?out ! i) =
               max 0 (js_round (max 0 (js_round (PricePoint.price (history ! i)))
                                + (cur - max 0 (js_round (PricePoint.price (last history))))))"
    if "i < length history - 1" for i
  proof -
    have "PricePoint.price (?out ! i) =
       max 0 (js_round (PricePoint.price (?m ! i) + (cur - PricePoint.price (?m ! (length ?m - 1)))))"
      unfolding reconcile_def using that by (simp add: price_align_other lm)
    moreover have "PricePoint.price (?m ! i) = max 0 (js_round (PricePoint.price (history ! i)))"
      using that by (simp add: mapped_of_def)
    moreover have "PricePoint.price (?m ! (length ?m - 1)) = max 0 (js_round (PricePoint.price (last history)))"
      using ne(1) by (simp add: mapped_of_def last_conv_nth)
    ultimately show ?thesis by simp
  qed
  show ?thesis
    using len dates lastp others clamp_round_Ints by (simp add: others)
qed


lemma js_round_Ints_shift:
  assumes "p \<in> \<int>" and "- (1 / 2) \<le> d" and "d < 1 / 2"
  shows "js_round (p + d) = p"
proof -
  from assms(1) obtain z where "p = of_int z" by (auto elim: Ints_cases)
  then show ?thesis using js_round_int_shift [OF assms(2,3)] by simp
qed

lemma price_reconcile_last:
  "history \<noteq> [] \<Longrightarrow>
   PricePoint.price (reconcile (Some cur) history ! (length history - 1)) = cur"
  using price_align_last [of "mapped_of history" cur]
  by (simp add: reconcile_def length_mapped_of mapped_of_def)

lemma price_reconcile_other:
  assumes "i < length history - 1"
  shows "PricePoint.price (reconcile (Some cur) history ! i) =
           max 0 (js_round (max 0 (js_round (PricePoint.price (history ! i)))
                            + (cur - max 0 (js_round (PricePoint.price (history ! (length history - 1)))))))"
  using assms price_align_other [of i "mapped_of history" cur]
  by (simp add: reconcile_def length_mapped_of mapped_of_def)

lemma date_reconcile:
  "i < length history \<Longrightarrow>
   PricePoint.date (reconcile parsed history ! i) = PricePoint.date (history ! i)"
  using date_align [of i "mapped_of history" parsed]
  by (simp add: reconcile_def length_mapped_of mapped_of_def)

lemma reconciled_price_fixed:
  assumes "i < length history - 1"
  shows "max 0 (js_round (PricePoint.price (reconcile (Some cur) history ! i)))
           = PricePoint.price (reconcile (Some cur) history ! i)"
proof -
  let ?p = "PricePoint.price (reconcile (Some cur) history ! i)"
  have "?p \<in> \<int>" "0 \<le> ?p"
    using price_reconcile_other [OF assms, of cur] clamp_round_Ints by simp_all
  then show ?thesis
    using js_round_Ints_shift [of ?p 0] by simp
qed

lemma align_reconciled:
  "align (Some cur) (reconcile (Some cur) history) = reconcile (Some cur) history"
proof (rule nth_equalityI)
  show "length (align (Some cur) (reconcile (Some cur) history))
      = length (reconcile (Some cur) history)"
    by (rule length_align)
next
  fix i
  let ?out = "reconcile (Some cur) history"
  let ?n = "length history"
  assume "i < length (align (Some cur) ?out)"
  then have i: "i < ?n" by (simp add: length_align length_reconcile)
  then have ne: "history \<noteq> []" "?out \<noteq> []"
    using length_reconcile [of "Some cur" history] by auto
  have len: "length ?out = ?n" by (rule length_reconcile)
  have d: "PricePoint.date (align (Some cur) ?out ! i) = PricePoint.date (?out ! i)"
    using i by (simp add: date_align len)
  have p: "PricePoint.price (align (Some cur) ?out ! i) = PricePoint.price (?out ! i)"
  proof (cases "i = ?n - 1")
    case True
    then show ?thesis
      using price_reconcile_last [OF ne(1), of cur] price_align_last [OF ne(2), of cur]
      by (simp add: len)
  next
    case False
    with i have lt: "i < ?n - 1" by simp
    have lastc: "PricePoint.price (?out ! (?n - 1)) = cur"
      by (rule price_reconcile_last [OF ne(1)])
    show ?thesis
      using price_align_other [of i ?out cur] lt lastc reconciled_price_fixed [OF lt, of cur]
      by (simp add: len)
  qed
  show "align (Some cur) ?out ! i = ?out ! i"
    using d p by (intro PricePoint.equality) simp_all
qed

lemma reconcile_twice:
  assumes "cur \<ge> 0"
  shows "reconcile (Some cur) (reconcile (Some cur) history) = reconcile (Some cur) history"
proof (rule nth_equalityI)
  show "length (reconcile (Some cur) (reconcile (Some cur) history))
      = length (reconcile (Some cur) history)"
    by (simp add: length_reconcile)
next
  fix i
  let ?out = "reconcile (Some cur) history"
  let ?n = "length history"
  assume "i < length (reconcile (Some cur) ?out)"
  then have i: "i < ?n" by (simp add: length_reconcile)
  then have ne: "history \<noteq> []" "?out \<noteq> []"
    using length_reconcile [of "Some cur" history] by auto
  have len: "length ?out = ?n" by (rule length_reconcile)
  have d: "PricePoint.date (reconcile (Some cur) ?out ! i) = PricePoint.date (?out ! i)"
    using i by (simp add: date_reconcile len)
  have p: "PricePoint.price (reconcile (Some cur) ?out ! i) = PricePoint.price (?out ! i)"
  proof (cases "i = ?n - 1")
    case True
    then show ?thesis
      using price_reconcile_last [OF ne(1), of cur] price_reconcile_last [OF ne(2), of cur]
      by (simp add: len)
  next
    case False
    with i have lt: "i < ?n - 1" by simp
    let ?p = "PricePoint.price (?out ! i)"
    have pi: "?p \<in> \<int>" "0 \<le> ?p"
      using price_reconcile_other [OF lt, of cur] clamp_round_Ints by simp_all
    have lastc: "PricePoint.price (?out ! (?n - 1)) = cur"
      by (rule price_reconcile_last [OF ne(1)])
    have rc: "max 0 (js_round cur) = js_round cur"
      using js_round_nonneg [OF assms] by simp
    have "PricePoint.price (reconcile (Some cur) ?out ! i)
        = max 0 (js_round (?p + (cur - js_round cur)))"
      using price_reconcile_other [of i ?out cur] lt lastc rc reconciled_price_fixed [OF lt, of cur]
      by (simp add: len)
    also have "\<dots> = max 0 ?p"
      using js_round_Ints_shift [OF pi(1), of "cur - js_round cur"] js_round_offset_bounds [of cur]
      by simp
    finally show ?thesis using pi(2) by simp
  qed
  show "reconcile (Some cur) ?out ! i = ?out ! i"
    using d p by (intro PricePoint.equality) simp_all
qed

lemma align_uses_offset:
  "i < length m - 1 \<Longrightarrow>
   PricePoint.price (align (Some cur) m ! i)
     = max 0 (js_round (PricePoint.price (m ! i) + offset_of cur m))"
  by (simp add: price_align_other offset_of_def)

lemma mapped_of_reconciled:
  assumes "cur \<in> \<int>" and "0 \<le> cur"
  shows "mapped_of (reconcile (Some cur) history) = reconcile (Some cur) history"
proof (rule nth_equalityI)
  show "length (mapped_of (reconcile (Some cur) history)) = length (reconcile (Some cur) history)"
    by (rule length_mapped_of)
next
  fix i
  let ?out = "reconcile (Some cur) history"
  assume "i < length (mapped_of ?out)"
  then have i: "i < length history" by (simp add: length_mapped_of length_reconcile)
  then have ne: "history \<noteq> []" by auto
  have len: "length ?out = length history" by (rule length_reconcile)
  have fixed: "max 0 (js_round (PricePoint.price (?out ! i))) = PricePoint.price (?out ! i)"
  proof (cases "i = length history - 1")
    case True
    have "max 0 (js_round cur) = cur"
      using assms js_round_Ints_shift [of cur 0] by simp
    then show ?thesis
      using True price_reconcile_last [OF ne, of cur] by simp
  next
    case False
    with i have "i < length history - 1" by simp
    then show ?thesis by (rule reconciled_price_fixed)
  qed
  show "mapped_of ?out ! i = ?out ! i"
    using i fixed by (intro PricePoint.equality) (simp_all add: mapped_of_def len)
qed

text \<open>
  Claim C6, as the code has it. When the current price is an integer that is not
  negative, reconciling an already reconciled series again through lines 66 to 76, with
  the same current price, changes no point: the clamp and round of line 66 leaves the
  series as it is, and the offset that line 72 then computes is zero.
\<close>

theorem reconcile_idempotent:
  assumes "cur \<in> \<int>" and "0 \<le> cur"
  shows "reconcile (Some cur) (reconcile (Some cur) history) = reconcile (Some cur) history
       \<and> mapped_of (reconcile (Some cur) history) = reconcile (Some cur) history
       \<and> (history \<noteq> [] \<longrightarrow>
            offset_of cur (mapped_of (reconcile (Some cur) history)) = 0)"
proof -
  note m = mapped_of_reconciled [OF assms, of history]
  have "offset_of cur (mapped_of (reconcile (Some cur) history)) = 0" if ne: "history \<noteq> []"
    using price_reconcile_last [OF ne, of cur]
    by (simp add: m offset_of_def length_reconcile)
  then show ?thesis
    using reconcile_twice [OF assms(2)] m by blast
qed

lemma reconcile_spec_series:
  "reconcile (Some 1100) spec_series =
     [\<lparr>PricePoint.date = ''2024-01-01'', price = 1050\<rparr>,
      \<lparr>PricePoint.date = ''2024-01-08'', price = 1100\<rparr>]"
  by (simp add: reconcile_def align_def mapped_of_def spec_series_def js_round_def Let_def)

theorem reconcile_meets_current_price_witness:
  "length spec_series \<ge> 1 \<and> (1100::real) \<ge> 0
   \<and> length (reconcile (Some 1100) spec_series) = length spec_series
   \<and> map PricePoint.date (reconcile (Some 1100) spec_series) = map PricePoint.date spec_series
   \<and> PricePoint.price (last (reconcile (Some 1100) spec_series)) = 1100
   \<and> PricePoint.price (reconcile (Some 1100) spec_series ! 0) = 1050"
proof -
  have h1: "length spec_series \<ge> 1" by (simp add: spec_series_def)
  have h2: "(1100::real) \<ge> 0" by simp
  show ?thesis
    using h1 h2 reconcile_meets_current_price [OF h1 h2] reconcile_spec_series by simp
qed

theorem reconcile_idempotent_witness:
  "(1100::real) \<in> \<int> \<and> (0::real) \<le> 1100
   \<and> reconcile (Some 1100) spec_series =
       [\<lparr>PricePoint.date = ''2024-01-01'', price = 1050\<rparr>,
        \<lparr>PricePoint.date = ''2024-01-08'', price = 1100\<rparr>]
   \<and> reconcile (Some 1100) (reconcile (Some 1100) spec_series) = reconcile (Some 1100) spec_series
   \<and> mapped_of (reconcile (Some 1100) spec_series) = reconcile (Some 1100) spec_series
   \<and> spec_series \<noteq> []
   \<and> offset_of 1100 (mapped_of (reconcile (Some 1100) spec_series)) = 0"
proof -
  have h1: "(1100::real) \<in> \<int>" by simp
  have h2: "(0::real) \<le> 1100" by simp
  have ne: "spec_series \<noteq> []" by (simp add: spec_series_def)
  show ?thesis
    using h1 h2 ne reconcile_idempotent [OF h1 h2, of spec_series] reconcile_spec_series
    by (simp add: offset_of_def)
qed

text \<open>
  With the current price 1100.5 the scenario's series is reconciled to 1051 and 1100.5.
  Reconciled again, it enters through line 66 as 1051 and 1101, and line 72 computes the
  offset \<open>1100.5 - 1101\<close>: the computed offset is not the \<open>0\<close> of claim C6.
\<close>

theorem reconcile_offset_counterexample:
  "reconcile (Some (2201 / 2)) spec_series =
     [\<lparr>PricePoint.date = ''2024-01-01'', price = 1051\<rparr>,
      \<lparr>PricePoint.date = ''2024-01-08'', price = 2201 / 2\<rparr>]
   \<and> mapped_of (reconcile (Some (2201 / 2)) spec_series) =
     [\<lparr>PricePoint.date = ''2024-01-01'', price = 1051\<rparr>,
      \<lparr>PricePoint.date = ''2024-01-08'', price = 1101\<rparr>]
   \<and> offset_of (2201 / 2) (mapped_of (reconcile (Some (2201 / 2)) spec_series)) = - (1 / 2)"
  by (simp add: reconcile_def align_def mapped_of_def offset_of_def spec_series_def
      js_round_def Let_def)


section \<open>The keyword table at the name of the specification\<close>

lemma lower_iphone: "toLowerCase ''iPhone 15'' = ''iphone 15''"
  by (simp add: toLowerCase_def lower_char_def)

lemma base_iphone: "basePrice ''iPhone 15'' = 50000"
  by (simp add: basePrice_def lower_iphone)


section \<open>Properties of the fetch failure path and of the day-count history\<close>

lemma getPriceHistory_loop_step:
  "0 \<le> i \<Longrightarrow>
   getPriceHistory_loop rnd today base k i =
     \<lparr>PricePoint.date = iso_day_back today i,
      price = base + js_floor (rnd k * 1000) - 500,
      volume = js_floor (rnd (Suc k) * 100) + 10\<rparr>
       # getPriceHistory_loop rnd today base (k + 2) (i - 1)"
  by (subst getPriceHistory_loop.simps) simp

lemma getPriceHistory_loop_stop: "i < 0 \<Longrightarrow> getPriceHistory_loop rnd today base k i = []"
  by (subst getPriceHistory_loop.simps) simp

lemma getPriceHistory_loop_length:
  "length (getPriceHistory_loop rnd today base k i) = nat (i + 1)"
proof (induction rnd today base k i rule: getPriceHistory_loop.induct)
  case (1 rnd today base k i)
  show ?case
  proof (cases "0 \<le> i")
    case True
    then show ?thesis
      using "1.IH" [OF True] by (simp add: getPriceHistory_loop_step nat_add_distrib)
  next
    case False
    then show ?thesis by (simp add: getPriceHistory_loop_stop)
  qed
qed

lemma getPriceHistory_loop_dates:
  "map PricePoint.date (getPriceHistory_loop rnd today base k i)
     = map (\<lambda>j. iso_day_back today (int j)) (rev [0..<nat (i + 1)])"
proof (induction rnd today base k i rule: getPriceHistory_loop.induct)
  case (1 rnd today base k i)
  show ?case
  proof (cases "0 \<le> i")
    case True
    then have "nat (i + 1) = Suc (nat i)" by simp
    then have "rev [0..<nat (i + 1)] = nat i # rev [0..<nat (i - 1 + 1)]" by simp
    then show ?thesis
      using True "1.IH" [OF True] by (simp add: getPriceHistory_loop_step)
  next
    case False
    then show ?thesis by (simp add: getPriceHistory_loop_stop)
  qed
qed

lemma js_floor_draw:
  assumes "0 \<le> r" and "r < 1"
  shows "js_floor (r * 1000) \<in> \<int> \<and> 0 \<le> js_floor (r * 1000) \<and> js_floor (r * 1000) < 1000"
proof -
  have "0 \<le> \<lfloor>r * 1000\<rfloor>" using assms by simp
  moreover have "\<lfloor>r * 1000\<rfloor> < 1000" using assms by (simp add: floor_less_iff)
  ultimately show ?thesis by (simp add: js_floor_def)
qed

lemma getPriceHistory_loop_prices:
  "valid_random rnd \<Longrightarrow> base \<in> \<int> \<Longrightarrow>
   \<forall>p \<in> set (getPriceHistory_loop rnd today base k i).
     PricePoint.price p \<in> \<int> \<and> base - 500 \<le> PricePoint.price p \<and> PricePoint.price p < base + 500"
proof (induction rnd today base k i rule: getPriceHistory_loop.induct)
  case (1 rnd today base k i)
  show ?case
  proof (cases "0 \<le> i")
    case True
    have r: "0 \<le> rnd k" "rnd k < 1"
      using "1.prems"(1) by (simp_all add: valid_random_def)
    note d = js_floor_draw [OF r]
    have head: "base + js_floor (rnd k * 1000) - 500 \<in> \<int>
              \<and> base - 500 \<le> base + js_floor (rnd k * 1000) - 500
              \<and> base + js_floor (rnd k * 1000) - 500 < base + 500"
      using d "1.prems"(2) by auto
    show ?thesis
      using head "1.IH" [OF True "1.prems"] by (simp add: getPriceHistory_loop_step [OF True])
  next
    case False
    then show ?thesis by (simp add: getPriceHistory_loop_stop)
  qed
qed

lemma history_base_range:
  assumes "valid_random rnd"
  shows "history_base rnd \<in> \<int> \<and> 20000 \<le> history_base rnd \<and> history_base rnd < 70000"
proof -
  have r: "0 \<le> rnd 0" "rnd 0 < 1"
    using assms by (simp_all add: valid_random_def)
  have "0 \<le> \<lfloor>rnd 0 * 50000\<rfloor>" using r by simp
  moreover have "\<lfloor>rnd 0 * 50000\<rfloor> < 50000" using r by (simp add: floor_less_iff)
  ultimately show ?thesis by (simp add: history_base_def js_floor_def)
qed

lemma iso_day_back_steady:
  assumes "zoneOffset c (localDay c - n) = zoneOffset c (localDay c)"
  shows "iso_day_back c n = iso_day_back c 0 - n"
  using assms by (simp add: iso_day_back_def Let_def)

text \<open>
  Claim C4, as the code has it. For every product name and every day count that is not
  negative, the day-count history has \<open>days + 1\<close> points, one for each number of days
  back from \<open>days\<close> down to \<open>0\<close>. Where the zone has one offset from UTC on all these
  days, their dates are the \<open>days + 1\<close> consecutive days that end on the day of the
  call. The product name has no influence: the base price is an integer drawn from 20000
  up to 69999, and no keyword table is read. Every price is a number, an integer within
  500 of the base price, not a formatted text.
\<close>

theorem getPriceHistory_shape:
  assumes "valid_random rnd" and "0 \<le> days"
  shows "length (getPriceHistory name days rnd today) = nat days + 1
       \<and> ((\<forall>j \<le> nat days. zoneOffset today (localDay today - int j)
                              = zoneOffset today (localDay today)) \<longrightarrow>
            map PricePoint.date (getPriceHistory name days rnd today)
              = map (\<lambda>j. iso_day_back today 0 - int j) (rev [0..<nat days + 1]))
       \<and> getPriceHistory name days rnd today = getPriceHistory other days rnd today
       \<and> history_base rnd \<in> \<int> \<and> 20000 \<le> history_base rnd \<and> history_base rnd < 70000
       \<and> (\<forall>p \<in> set (getPriceHistory name days rnd today).
             PricePoint.price p \<in> \<int>
             \<and> history_base rnd - 500 \<le> PricePoint.price p
             \<and> PricePoint.price p < history_base rnd + 500)"
proof -
  note b = history_base_range [OF assms(1)]
  have n: "nat (days + 1) = nat days + 1" using assms(2) by simp
  have "length (getPriceHistory name days rnd today) = nat days + 1"
    by (simp add: getPriceHistory_def getPriceHistory_loop_length n)
  moreover have "map PricePoint.date (getPriceHistory name days rnd today)
           = map (\<lambda>j. iso_day_back today 0 - int j) (rev [0..<nat days + 1])"
    if steady: "\<forall>j \<le> nat days. zoneOffset today (localDay today - int j)
                              = zoneOffset today (localDay today)"
  proof -
    have "map PricePoint.date (getPriceHistory name days rnd today)
        = map (\<lambda>j. iso_day_back today (int j)) (rev [0..<nat days + 1])"
      unfolding getPriceHistory_def getPriceHistory_loop_dates n ..
    also have "\<dots> = map (\<lambda>j. iso_day_back today 0 - int j) (rev [0..<nat days + 1])"
      using steady by (intro map_cong refl iso_day_back_steady) auto
    finally show ?thesis .
  qed
  moreover have "getPriceHistory name days rnd today = getPriceHistory other days rnd today"
    by (simp add: getPriceHistory_def)
  moreover have "\<forall>p \<in> set (getPriceHistory name days rnd today).
             PricePoint.price p \<in> \<int>
             \<and> history_base rnd - 500 \<le> PricePoint.price p
             \<and> PricePoint.price p < history_base rnd + 500"
    unfolding getPriceHistory_def
    using getPriceHistory_loop_prices [OF assms(1)] b by blast
  ultimately show ?thesis using b by blast
qed

lemma history_eval:
  "getPriceHistory ''iPhone 15'' 1 (const_draws 0) utc_noon_clock =
     [\<lparr>PricePoint.date = 20027, price = 19500, volume = 10\<rparr>,
      \<lparr>PricePoint.date = 20028, price = 19500, volume = 10\<rparr>]"
  by code_simp

lemma history_base_eval: "history_base (const_draws 0) = 20000"
  by (simp add: history_base_def const_draws_def js_floor_def)

theorem getPriceHistory_shape_witness:
  "valid_random (const_draws 0) \<and> (0::int) \<le> 1
   \<and> zoneOffset utc_noon_clock (localDay utc_noon_clock - 1)
       = zoneOffset utc_noon_clock (localDay utc_noon_clock)
   \<and> length (getPriceHistory ''iPhone 15'' 1 (const_draws 0) utc_noon_clock) = 2
   \<and> map PricePoint.date (getPriceHistory ''iPhone 15'' 1 (const_draws 0) utc_noon_clock)
       = [20027, 20028]
   \<and> map PricePoint.price (getPriceHistory ''iPhone 15'' 1 (const_draws 0) utc_noon_clock)
       = [19500, 19500]
   \<and> history_base (const_draws 0) = 20000"
proof -
  have h1: "valid_random (const_draws 0)"
    by (simp add: valid_random_def const_draws_def)
  have h2: "(0::int) \<le> 1" by simp
  have z: "zoneOffset utc_noon_clock (localDay utc_noon_clock - 1)
         = zoneOffset utc_noon_clock (localDay utc_noon_clock)"
    by (simp add: utc_noon_clock_def)
  show ?thesis
    using h1 h2 z
      getPriceHistory_shape [OF h1 h2, of "''iPhone 15''" utc_noon_clock "''iPhone 15''"]
    by (simp add: history_eval history_base_eval)
qed

text \<open>
  With every draw \<open>0\<close> the history of \<open>iPhone 15\<close> is built on the base price 20000,
  where the keyword table of the chart gives 50000, and its prices are the numbers
  19500: claim C4 promises the table's base price and prices formatted as text.
\<close>

theorem getPriceHistory_counterexample:
  "getPriceHistory ''iPhone 15'' 1 (const_draws 0) utc_noon_clock =
     [\<lparr>PricePoint.date = 20027, price = 19500, volume = 10\<rparr>,
      \<lparr>PricePoint.date = 20028, price = 19500, volume = 10\<rparr>]
   \<and> history_base (const_draws 0) = 20000
   \<and> basePrice ''iPhone 15'' = 50000"
  using history_eval history_base_eval by (simp add: basePrice_def lower_iphone)

text \<open>
  Where the offset changes within the window the dates are not consecutive days: for ten
  days back from 2024-04-05, 01:30 in Europe/Berlin, the series starts on 2024-03-26,
  has 2024-03-31 (day 19813) twice and ends on 2024-04-04, the UTC day of the call.
\<close>

lemma getPriceHistory_spring_dates:
  "map PricePoint.date (getPriceHistory ''iPhone 15'' 10 (const_draws 0) berlin_spring_clock)
     = [19808, 19809, 19810, 19811, 19812, 19813, 19813, 19814, 19815, 19816, 19817]"
  by code_simp

lemma fallback_series_eval:
  "fallback_series parsed today =
     [\<lparr>PricePoint.date = iso_day_back today 35, price = or_zero parsed\<rparr>,
      \<lparr>PricePoint.date = iso_day_back today 28, price = or_zero parsed\<rparr>,
      \<lparr>PricePoint.date = iso_day_back today 21, price = or_zero parsed\<rparr>,
      \<lparr>PricePoint.date = iso_day_back today 14, price = or_zero parsed\<rparr>,
      \<lparr>PricePoint.date = iso_day_back today 7, price = or_zero parsed\<rparr>,
      \<lparr>PricePoint.date = iso_day_back today 0, price = or_zero parsed\<rparr>]"
  by (simp add: fallback_series_def eval_nat_numeral)

lemma or_zero_cases: "or_zero parsed = (case parsed of None \<Rightarrow> 0 | Some v \<Rightarrow> v)"
  by (simp add: or_zero_def split: option.splits)

text \<open>
  What the fallback does for every product, clock and state: \<open>startTracking\<close> returns,
  with six points that carry the parsed price, or \<open>0\<close> when there is none, and with
  \<open>lastUpdated\<close> set. The dates are the UTC days of the instants that lie 35, 28, 21,
  14, 7 and 0 local days back.
\<close>

lemma startTracking_fallback:
  "\<exists>st'. startTracking product (Inl e) today now st = Inr st'
     \<and> length (priceHistory st') = 6
     \<and> map PricePoint.date (priceHistory st')
         = map (iso_day_back today) [35, 28, 21, 14, 7, 0]
     \<and> map PricePoint.price (priceHistory st')
         = replicate 6 (case parsePriceToNumber (Some (SerpProduct.price product)) of
                          None \<Rightarrow> 0 | Some v \<Rightarrow> v)
     \<and> lastUpdated st' = Some now
     \<and> selectedProduct st' = title product"
  by (simp add: startTracking_def Let_def fallback_series_eval or_zero_cases eval_nat_numeral
      split: option.splits)

lemma berlin_days:
  "map (iso_day_back berlin_clock) [35, 28, 21, 14, 7, 0]
     = [19992, 19999, 20006, 20013, 20020, 20028]"
  by (simp add: iso_day_back_def berlin_clock_def Let_def)

text \<open>
  Claim C9 at a failing input. The fetch throws on 2024-11-01 at 00:30 UTC, which is
  01:30 in Europe/Berlin. \<open>startTracking\<close> returns, with six points at the parsed price
  89999 and with \<open>lastUpdated\<close> set, as the claim has it. Their dates are 2024-09-26,
  10-03, 10-10, 10-17, 10-24 and 11-01 (days 19992 to 20028): the last two are eight days
  apart, where the claim has the points one week apart. The five earlier instants are at
  01:30 summer time, which is 23:30 UTC of the day before.
\<close>

theorem startTracking_fallback_uneven_dates:
  "startTracking sample_product
     (Inl (Thrown ''Failed to fetch'') :: js_error + int HistoryItem list)
     berlin_clock 1730421000000 initial_state =
   Inr \<lparr>selectedProduct = ''Phone - Premium Model'',
        selectedProductDetails = Some sample_product,
        currentPrice = Some 89999,
        priceHistory =
          [\<lparr>PricePoint.date = 19992, price = 89999\<rparr>,
           \<lparr>PricePoint.date = 19999, price = 89999\<rparr>,
           \<lparr>PricePoint.date = 20006, price = 89999\<rparr>,
           \<lparr>PricePoint.date = 20013, price = 89999\<rparr>,
           \<lparr>PricePoint.date = 20020, price = 89999\<rparr>,
           \<lparr>PricePoint.date = 20028, price = 89999\<rparr>],
        lastUpdated = Some 1730421000000\<rparr>
   \<and> (20028::int) - 20020 = 8"
proof -
  have p: "parsePriceToNumber (Some (SerpProduct.price sample_product)) = Some 89999"
    by (simp add: sample_product_def parse_eval)
  have t: "title sample_product = ''Phone - Premium Model''"
    by (simp add: sample_product_def)
  have d: "iso_day_back berlin_clock 35 = 19992" "iso_day_back berlin_clock 28 = 19999"
    "iso_day_back berlin_clock 21 = 20006" "iso_day_back berlin_clock 14 = 20013"
    "iso_day_back berlin_clock 7 = 20020" "iso_day_back berlin_clock 0 = 20028"
    using berlin_days by simp_all
  show ?thesis
    by (simp add: startTracking_def p t d fallback_series_eval or_zero_def initial_state_def)
qed


section \<open>Properties of the projection\<close>

lemma forecast_loop_step:
  "i \<le> 3 \<Longrightarrow> cli + int i < int (length months) \<Longrightarrow>
   forecast_loop t avgStep avg rnd cli i current =
     (cli + int i, forecast_step t avgStep avg rnd i current)
       # forecast_loop t avgStep avg rnd cli (Suc i) (forecast_step t avgStep avg rnd i current)"
  by (subst forecast_loop.simps) (simp add: Let_def)

lemma forecast_loop_stop:
  "\<not> (i \<le> 3 \<and> cli + int i < int (length months)) \<Longrightarrow>
   forecast_loop t avgStep avg rnd cli i current = []"
  by (subst forecast_loop.simps) auto

lemma forecast_step_negative_target:
  "t < 0 \<Longrightarrow> forecast_step (Some t) avgStep avg rnd i current = forecast_step None avgStep avg rnd i current"
  by (simp add: forecast_step_def)

lemma forecast_loop_negative_target_aux:
  "tg = Some t \<Longrightarrow> t < 0 \<Longrightarrow>
   forecast_loop tg avgStep avg rnd cli i current = forecast_loop None avgStep avg rnd cli i current"
proof (induction tg avgStep avg rnd cli i current rule: forecast_loop.induct)
  case (1 tg avgStep avg rnd cli i current)
  show ?case
  proof (cases "i \<le> 3 \<and> cli + int i < int (length months)")
    case True
    have step: "forecast_step tg avgStep avg rnd i current = forecast_step None avgStep avg rnd i current"
      using "1.prems" by (simp add: forecast_step_negative_target)
    have "forecast_loop tg avgStep avg rnd cli (Suc i) (forecast_step tg avgStep avg rnd i current)
        = forecast_loop None avgStep avg rnd cli (Suc i) (forecast_step tg avgStep avg rnd i current)"
      using "1.IH" [OF True refl refl "1.prems"] .
    then show ?thesis
      using True step by (simp add: forecast_loop_step)
  next
    case False
    then show ?thesis by (simp add: forecast_loop_stop)
  qed
qed

lemma forecast_loop_negative_target:
  "t < 0 \<Longrightarrow> forecast_loop (Some t) avgStep avg rnd cli i current
             = forecast_loop None avgStep avg rnd cli i current"
  by (rule forecast_loop_negative_target_aux [OF refl])

lemma forecast_step_nonneg: "0 \<le> forecast_step t avgStep avg rnd i current"
  by (simp add: forecast_step_def Let_def split: option.splits)

lemma forecast_loop_props:
  "\<forall>(j, v) \<in> set (forecast_loop t avgStep avg rnd cli i current).
      cli + int i \<le> j \<and> j \<le> cli + 3 \<and> j < int (length months) \<and> 0 \<le> v"
proof (induction t avgStep avg rnd cli i current rule: forecast_loop.induct)
  case (1 t avgStep avg rnd cli i current)
  show ?case
  proof (cases "i \<le> 3 \<and> cli + int i < int (length months)")
    case True
    have IH: "\<forall>(j, v) \<in> set (forecast_loop t avgStep avg rnd cli (Suc i) (forecast_step t avgStep avg rnd i current)).
      cli + int (Suc i) \<le> j \<and> j \<le> cli + 3 \<and> j < int (length months) \<and> 0 \<le> v"
      using "1.IH" [OF True refl refl] .
    show ?thesis
      using True IH by (auto simp add: forecast_loop_step forecast_step_nonneg)
  next
    case False
    then show ?thesis by (simp add: forecast_loop_stop)
  qed
qed

lemma forecast_loop_sorted:
  "sorted_wrt (<) (map fst (forecast_loop t avgStep avg rnd cli i current))"
proof (induction t avgStep avg rnd cli i current rule: forecast_loop.induct)
  case (1 t avgStep avg rnd cli i current)
  show ?case
  proof (cases "i \<le> 3 \<and> cli + int i < int (length months)")
    case True
    have IH: "sorted_wrt (<) (map fst (forecast_loop t avgStep avg rnd cli (Suc i) (forecast_step t avgStep avg rnd i current)))"
      using "1.IH" [OF True refl refl] .
    have lb: "\<forall>(j, v) \<in> set (forecast_loop t avgStep avg rnd cli (Suc i) (forecast_step t avgStep avg rnd i current)). cli + int (Suc i) \<le> j"
      using forecast_loop_props [of t avgStep avg rnd cli "Suc i"] by fastforce
    show ?thesis
      using True IH lb by (auto simp add: forecast_loop_step)
  next
    case False
    then show ?thesis by (simp add: forecast_loop_stop)
  qed
qed

lemma forecast_loop_length:
  "length (forecast_loop t avgStep avg rnd cli i current) \<le> 4 - i"
proof (induction t avgStep avg rnd cli i current rule: forecast_loop.induct)
  case (1 t avgStep avg rnd cli i current)
  show ?case
  proof (cases "i \<le> 3 \<and> cli + int i < int (length months)")
    case True
    have IH: "length (forecast_loop t avgStep avg rnd cli (Suc i) (forecast_step t avgStep avg rnd i current)) \<le> 4 - Suc i"
      using "1.IH" [OF True refl refl] .
    show ?thesis
      using True IH by (auto simp add: forecast_loop_step)
  next
    case False
    then show ?thesis by (simp add: forecast_loop_stop)
  qed
qed

lemma historical_labels_props:
  "\<forall>(j, v) \<in> set (historical_labels i ps). int i \<le> j \<and> j < int i + int (length (historical_labels i ps)) \<and> j < int (length months)"
proof (induction ps arbitrary: i)
  case Nil
  then show ?case by simp
next
  case (Cons p ps)
  show ?case
    using Cons [of "Suc i"] by (auto simp add: Let_def)
qed

lemma historical_labels_sorted: "sorted_wrt (<) (map fst (historical_labels i ps))"
proof (induction ps arbitrary: i)
  case Nil
  then show ?case by simp
next
  case (Cons p ps)
  show ?case
    using Cons [of "Suc i"] historical_labels_props [of "Suc i" ps] by (fastforce simp add: Let_def)
qed

lemma historical_labels_length:
  "length (historical_labels i ps) = min (length ps) (length months - i)"
  by (induction ps arbitrary: i) (auto simp add: Let_def)


lemma forecast_loop_three:
  assumes "cli + 3 < int (length months)"
  shows "forecast_loop t avgStep avg rnd cli 1 current =
           [(cli + 1, forecast_step t avgStep avg rnd 1 current),
            (cli + 2, forecast_step t avgStep avg rnd 2 (forecast_step t avgStep avg rnd 1 current)),
            (cli + 3, forecast_step t avgStep avg rnd 3
                        (forecast_step t avgStep avg rnd 2 (forecast_step t avgStep avg rnd 1 current)))]"
proof -
  have s1: "forecast_loop t avgStep avg rnd cli 1 c =
              (cli + 1, forecast_step t avgStep avg rnd 1 c)
                # forecast_loop t avgStep avg rnd cli 2 (forecast_step t avgStep avg rnd 1 c)" for c
    using assms forecast_loop_step [of 1 cli t avgStep avg rnd c] by (simp add: numeral_2_eq_2)
  have s2: "forecast_loop t avgStep avg rnd cli 2 c =
              (cli + 2, forecast_step t avgStep avg rnd 2 c)
                # forecast_loop t avgStep avg rnd cli 3 (forecast_step t avgStep avg rnd 2 c)" for c
    using assms forecast_loop_step [of 2 cli t avgStep avg rnd c] by (simp add: numeral_3_eq_3 numeral_2_eq_2)
  have s3: "forecast_loop t avgStep avg rnd cli 3 c =
              (cli + 3, forecast_step t avgStep avg rnd 3 c)
                # forecast_loop t avgStep avg rnd cli 4 (forecast_step t avgStep avg rnd 3 c)" for c
    using assms forecast_loop_step [of 3 cli t avgStep avg rnd c] by (simp add: eval_nat_numeral)
  have s4: "forecast_loop t avgStep avg rnd cli 4 c = []" for c
    by (rule forecast_loop_stop) simp
  show ?thesis
    by (simp only: s1 s2 s3 s4)
qed


lemma length_slice_last: "length (slice_last n xs) = min n (length xs)"
  by (simp add: slice_last_def)

lemma historical_of_length: "length (historical_of history) = min 8 (length history)"
  by (simp add: historical_of_def historical_labels_length length_slice_last months_def)

lemma preds_of_three:
  "preds_of history t rnd =
     (let prices = map PricePoint.price (slice_last 8 history);
          avg = avg_of prices;
          avgStep = avgStep_of prices;
          last = (case prices of [] \<Rightarrow> avg | _ # _ \<Rightarrow> prices ! (length prices - 1));
          n = int (min 8 (length history));
          v1 = forecast_step t avgStep avg rnd 1 last;
          v2 = forecast_step t avgStep avg rnd 2 v1
      in [(n, v1), (n + 1, v2), (n + 2, forecast_step t avgStep avg rnd 3 v2)])"
proof -
  have "int (length (historical_labels 0 (slice_last 8 history))) - 1 + 3 < int (length months)"
    by (simp add: historical_labels_length length_slice_last months_def)
  from forecast_loop_three [OF this]
  show ?thesis
    unfolding preds_of_def Let_def
    by (simp add: historical_labels_length length_slice_last months_def)
qed

lemma preds_of_length: "length (preds_of history t rnd) = 3"
  by (simp add: preds_of_three Let_def)




text \<open>
  Claim C10. A supplied target below zero is treated as no target: every step of the
  forecast adds the average step damped by \<open>0.8\<close> and the jitter, clamps and rounds;
  the forecast, and so the whole chart series, is the one computed without a target.
  Every forecast value is clamped at zero, so none equals the target.
\<close>

theorem negative_target_is_no_target:
  assumes "target < 0"
  shows "forecast_step (Some target) avgStep avg rnd i current
           = max 0 (js_round (current + avgStep * (8 / 10)
                              + (rnd (i - 1) - 1 / 2) * \<bar>avg\<bar> * (2 / 100)))
       \<and> preds_of history (Some target) rnd = preds_of history None rnd
       \<and> projectFromHistory history (Some target) rnd = projectFromHistory history None rnd
       \<and> (\<forall>(j, v) \<in> set (preds_of history (Some target) rnd). 0 \<le> v \<and> v \<noteq> target)"
proof -
  have eq: "preds_of history (Some target) rnd = preds_of history None rnd"
    by (simp add: preds_of_def Let_def forecast_loop_negative_target [OF assms])
  have "\<forall>(j, v) \<in> set (preds_of history (Some target) rnd). 0 \<le> v"
    using forecast_loop_props unfolding preds_of_def Let_def by fastforce
  then have "\<forall>(j, v) \<in> set (preds_of history (Some target) rnd). 0 \<le> v \<and> v \<noteq> target"
    using assms by fastforce
  moreover have "forecast_step (Some target) avgStep avg rnd i current
           = max 0 (js_round (current + avgStep * (8 / 10)
                              + (rnd (i - 1) - 1 / 2) * \<bar>avg\<bar> * (2 / 100)))"
    using assms by (simp add: forecast_step_def Let_def)
  ultimately show ?thesis
    using eq by (simp add: projectFromHistory_def)
qed


lemma historical_labels_indices:
  "map fst (historical_labels i ps) = map int [i..<i + min (length ps) (length months - i)]"
proof (induction ps arbitrary: i)
  case Nil
  then show ?case by simp
next
  case (Cons p ps)
  show ?case
  proof (cases "i \<ge> length months")
    case True
    then show ?thesis by (simp add: Let_def)
  next
    case False
    then have "min (length (p # ps)) (length months - i)
             = Suc (min (length ps) (length months - Suc i))"
      by auto
    moreover have "[i..<i + Suc m] = i # [Suc i..<Suc i + m]" for m
      by (subst upt_rec) simp
    ultimately have "[i..<i + min (length (p # ps)) (length months - i)]
             = i # [Suc i..<Suc i + min (length ps) (length months - Suc i)]"
      by (simp only:)
    then show ?thesis
      using False Cons [of "Suc i"] by (simp add: Let_def)
  qed
qed

lemma historical_of_indices:
  "map fst (historical_of history) = map int [0..<min 8 (length history)]"
  by (simp add: historical_of_def historical_labels_indices length_slice_last months_def)

lemma preds_of_indices:
  "map fst (preds_of history t rnd) = map int [min 8 (length history)..<min 8 (length history) + 3]"
proof -
  have "[n..<n + 3] = [n, n + 1, n + 2]" for n :: nat
    by (simp add: upt_conv_Cons)
  then show ?thesis
    by (simp add: preds_of_three Let_def)
qed

lemma map_nth_take:
  assumes "k \<le> length xs"
  shows "map ((!) xs) [0..<k] = take k xs"
proof -
  have "take k xs = take k (map ((!) xs) [0..<length xs])"
    by (simp add: map_nth)
  also have "\<dots> = map ((!) xs) (take k [0..<length xs])"
    by (rule take_map)
  also have "\<dots> = map ((!) xs) [0..<k]"
    using assms by simp
  finally show ?thesis by simp
qed

lemma label_of_int: "k < length months \<Longrightarrow> label_of (int k) = months ! k"
  by (simp add: label_of_def month_at_def)

lemma distinct_months: "distinct months"
  by (simp add: months_def)

lemma projection_dates:
  assumes "history \<noteq> []"
  shows "map PriceDataPoint.date (projectFromHistory history t rnd)
           = take (min 8 (length history) + 3) months"
proof -
  let ?n = "min 8 (length history)"
  have "map PriceDataPoint.date (projectFromHistory history t rnd)
      = map label_of (map fst (historical_of history) @ map fst (preds_of history t rnd))"
    using assms by (simp add: projectFromHistory_def case_prod_unfold comp_def)
  also have "\<dots> = map label_of (map int ([0..<?n] @ [?n..<?n + 3]))"
    by (simp only: historical_of_indices preds_of_indices map_append)
  also have "[0..<?n] @ [?n..<?n + 3] = [0..<?n + 3]"
    by (metis upt_add_eq_append zero_le)
  also have "map label_of (map int [0..<?n + 3]) = map (\<lambda>k. months ! k) [0..<?n + 3]"
    by (simp add: label_of_int months_def)
  also have "\<dots> = take (?n + 3) months"
    by (rule map_nth_take) (simp add: months_def)
  finally show ?thesis .
qed

text \<open>
  Claim C7. For every series, target and source of draws: the forecast has at most three
  points; every label index, historical or forecast, lies within the twelve months, so
  that every read of the month table is in range and no label is past \<open>Dec\<close>; the
  forecast indices are distinct and each is above every historical index; the labels of
  the chart series are distinct months.
\<close>

theorem projection_bounds:
  "length (preds_of history t rnd) \<le> 3
   \<and> (\<forall>(j, v) \<in> set (historical_of history @ preds_of history t rnd).
         0 \<le> j \<and> j < int (length months) \<and> month_at j = Some (months ! nat j))
   \<and> distinct (map fst (preds_of history t rnd))
   \<and> (\<forall>(j, v) \<in> set (preds_of history t rnd).
         \<forall>(j', v') \<in> set (historical_of history). j' < j)
   \<and> distinct (map PriceDataPoint.date (projectFromHistory history t rnd))
   \<and> set (map PriceDataPoint.date (projectFromHistory history t rnd)) \<subseteq> set months"
proof -
  let ?n = "min 8 (length history)"
  let ?H = "historical_of history"
  let ?P = "preds_of history t rnd"
  have hi: "fst ` set ?H = int ` {0..<?n}"
    using historical_of_indices [of history] by (metis atLeastLessThan_upt set_map)
  have pi: "fst ` set ?P = int ` {?n..<?n + 3}"
    using preds_of_indices [of history t rnd] by (metis atLeastLessThan_upt set_map)
  have inb: "0 \<le> j \<and> j < int (length months) \<and> month_at j = Some (months ! nat j)"
    if "j \<in> fst ` set ?H \<union> fst ` set ?P" for j
    using that unfolding hi pi by (auto simp add: month_at_def months_def)
  have c2: "\<forall>(j, v) \<in> set (?H @ ?P).
         0 \<le> j \<and> j < int (length months) \<and> month_at j = Some (months ! nat j)"
    using inb by force
  have c3: "distinct (map fst ?P)"
    by (simp add: preds_of_indices distinct_map)
  have after: "j' < j" if "j \<in> fst ` set ?P" "j' \<in> fst ` set ?H" for j j'
    using that unfolding hi pi by auto
  have c4: "\<forall>(j, v) \<in> set ?P. \<forall>(j', v') \<in> set ?H. j' < j"
    using after by force
  have c5: "distinct (map PriceDataPoint.date (projectFromHistory history t rnd))
          \<and> set (map PriceDataPoint.date (projectFromHistory history t rnd)) \<subseteq> set months"
  proof (cases "history = []")
    case True
    then show ?thesis by (simp add: projectFromHistory_def)
  next
    case False
    show ?thesis
      unfolding projection_dates [OF False]
      using distinct_months by (simp add: set_take_subset)
  qed
  show ?thesis
    using preds_of_length [of history t rnd] c2 c3 c4 c5 by simp
qed


lemmas project_eval = projectFromHistory_def historical_of_def preds_of_def slice_last_def
  avg_of_def avgStep_of_def diffs_of_def js_sum_def forecast_step_def js_round_def
  label_of_def month_at_def months_def const_draws_def spec_series_def Let_def
  forecast_loop.simps


lemma project_spec_drift:
  "projectFromHistory spec_series None (const_draws (1 / 2)) =
    [\<lparr>date = ''Jan'', price = Some 1000, prediction = None\<rparr>,
     \<lparr>date = ''Feb'', price = Some 1050, prediction = None\<rparr>,
     \<lparr>date = ''Mar'', price = None, prediction = Some 1090\<rparr>,
     \<lparr>date = ''Apr'', price = None, prediction = Some 1130\<rparr>,
     \<lparr>date = ''May'', price = None, prediction = Some 1170\<rparr>]"
  by (simp add: project_eval)

lemma preds_spec_drift:
  "preds_of spec_series None (const_draws (1 / 2)) = [(2, 1090), (3, 1130), (4, 1170)]"
  by (simp add: project_eval)

lemma historical_spec: "historical_of spec_series = [(0, 1000), (1, 1050)]"
  by (simp add: project_eval)



theorem negative_target_is_no_target_witness:
  "(- 1::real) < 0
   \<and> projectFromHistory spec_series (Some (- 1)) (const_draws (1 / 2)) =
       [\<lparr>date = ''Jan'', price = Some 1000, prediction = None\<rparr>,
        \<lparr>date = ''Feb'', price = Some 1050, prediction = None\<rparr>,
        \<lparr>date = ''Mar'', price = None, prediction = Some 1090\<rparr>,
        \<lparr>date = ''Apr'', price = None, prediction = Some 1130\<rparr>,
        \<lparr>date = ''May'', price = None, prediction = Some 1170\<rparr>]
   \<and> preds_of spec_series (Some (- 1)) (const_draws (1 / 2)) = [(2, 1090), (3, 1130), (4, 1170)]"
proof -
  have h: "(- 1::real) < 0" by simp
  show ?thesis
    using h negative_target_is_no_target
      [OF h, where history = spec_series and rnd = "const_draws (1 / 2)"]
    by (simp add: project_spec_drift preds_spec_drift)
qed

theorem projection_bounds_witness:
  "length (preds_of spec_series None (const_draws (1 / 2))) \<le> 3
   \<and> historical_of spec_series = [(0, 1000), (1, 1050)]
   \<and> preds_of spec_series None (const_draws (1 / 2)) = [(2, 1090), (3, 1130), (4, 1170)]
   \<and> map PriceDataPoint.date (projectFromHistory spec_series None (const_draws (1 / 2)))
       = [''Jan'', ''Feb'', ''Mar'', ''Apr'', ''May'']
   \<and> month_at 4 = Some ''May''"
  using projection_bounds [of spec_series None "const_draws (1 / 2)"]
  by (simp add: project_spec_drift preds_spec_drift historical_spec month_at_def months_def)


section \<open>Properties of the label-based generator\<close>

lemma historical_loop_length: "length (fst (historical_loop rnd k cur ms)) = length ms"
  by (induction ms arbitrary: k cur) (simp_all add: Let_def case_prod_unfold)

lemma historical_loop_nth:
  "j < length ms \<Longrightarrow>
   PriceDataPoint.date (fst (historical_loop rnd k cur ms) ! j) = ms ! j
   \<and> PriceDataPoint.price (fst (historical_loop rnd k cur ms) ! j) \<noteq> None
   \<and> PriceDataPoint.prediction (fst (historical_loop rnd k cur ms) ! j) = None"
proof (induction ms arbitrary: k cur j)
  case Nil
  then show ?case by simp
next
  case (Cons m ms)
  then show ?case
    by (cases j) (simp_all add: Let_def case_prod_unfold)
qed

lemma prediction_loop_length: "length (prediction_loop rnd k cur idx ms) = length ms"
  by (induction ms arbitrary: k idx) (simp_all add: Let_def)

lemma prediction_loop_nth:
  "j < length ms \<Longrightarrow>
   prediction_loop rnd k cur idx ms ! j =
     \<lparr>date = ms ! j, price = None,
      prediction = Some (js_round (cur * (1 + - (2 / 100) * (real (idx + j) + 1)
                                          + (rnd (k + j) - 1 / 2) * (1 / 10))))\<rparr>"
proof (induction ms arbitrary: k idx j)
  case Nil
  then show ?case by simp
next
  case (Cons m ms)
  show ?case
  proof (cases j)
    case 0
    then show ?thesis by (simp add: Let_def)
  next
    case (Suc j')
    then show ?thesis
      using Cons.IH [of j' "Suc k" "Suc idx"] Cons.prems by (simp add: Let_def)
  qed
qed

lemma length_historicalMonths: "length historicalMonths = 8"
  by (simp add: historicalMonths_def)

lemma length_predictionMonths: "length predictionMonths = 4"
  by (simp add: predictionMonths_def)

lemma generatePriceData_split:
  "generatePriceData name rnd =
     fst (historical_loop rnd 0 (basePrice name) historicalMonths)
     @ prediction_loop rnd 8 (snd (historical_loop rnd 0 (basePrice name) historicalMonths)) 0 predictionMonths"
  by (simp add: generatePriceData_def case_prod_unfold length_historicalMonths Let_def)

lemma generatePriceData_length: "length (generatePriceData name rnd) = 12"
  by (simp add: generatePriceData_split historical_loop_length prediction_loop_length
      length_historicalMonths length_predictionMonths)

lemma generatePriceData_historical:
  assumes "i < 8"
  shows "PriceDataPoint.date (generatePriceData name rnd ! i) = historicalMonths ! i
       \<and> PriceDataPoint.price (generatePriceData name rnd ! i) \<noteq> None
       \<and> PriceDataPoint.prediction (generatePriceData name rnd ! i) = None"
proof -
  have l: "i < length historicalMonths" using assms by (simp add: length_historicalMonths)
  then show ?thesis
    using historical_loop_nth [OF l, of rnd 0 "basePrice name"]
    by (simp add: generatePriceData_split nth_append historical_loop_length)
qed

lemma generatePriceData_prediction:
  assumes "k < 4"
  shows "generatePriceData name rnd ! (8 + k) =
     \<lparr>date = predictionMonths ! k, price = None,
      prediction = Some (js_round (snd (historical_loop rnd 0 (basePrice name) historicalMonths)
                          * (1 + - (2 / 100) * (real k + 1) + (rnd (8 + k) - 1 / 2) * (1 / 10))))\<rparr>"
proof -
  have l: "k < length predictionMonths" using assms by (simp add: length_predictionMonths)
  have "length (fst (historical_loop rnd 0 (basePrice name) historicalMonths)) = 8"
    by (simp add: historical_loop_length length_historicalMonths)
  then show ?thesis
    using prediction_loop_nth [OF l, of rnd 8 _ 0]
    by (simp add: generatePriceData_split nth_append)
qed

lemma historical_loop_final:
  "ms \<noteq> [] \<Longrightarrow>
   PriceDataPoint.price (last (fst (historical_loop rnd k cur ms))) = Some (snd (historical_loop rnd k cur ms))"
proof (induction ms arbitrary: k cur)
  case Nil
  then show ?case by simp
next
  case (Cons m ms)
  show ?case
  proof (cases "ms = []")
    case True
    then show ?thesis by (simp add: Let_def)
  next
    case False
    then have "fst (historical_loop rnd (Suc k) c ms) \<noteq> []" for c
      using historical_loop_length [of rnd "Suc k" c ms] by auto
    then show ?thesis
      using Cons.IH [OF False] by (simp add: Let_def case_prod_unfold)
  qed
qed

lemma valid_drift_draws: "valid_random drift_draws"
  by (simp add: valid_random_def drift_draws_def)

lemma valid_const_draws: "0 \<le> c \<Longrightarrow> c < 1 \<Longrightarrow> valid_random (const_draws c)"
  by (simp add: valid_random_def const_draws_def)

lemma perturbation_bounds:
  "valid_random rnd \<Longrightarrow> - (5 / 100) \<le> (rnd k - 1 / 2) * (1 / 10) \<and> (rnd k - 1 / 2) * (1 / 10) < 5 / 100"
proof -
  assume "valid_random rnd"
  then have "0 \<le> rnd k" "rnd k < 1" by (simp_all add: valid_random_def)
  then show ?thesis by simp
qed

lemma generatePriceData_last_historical:
  "PriceDataPoint.price (generatePriceData name rnd ! 7)
     = Some (snd (historical_loop rnd 0 (basePrice name) historicalMonths))"
proof -
  let ?h = "fst (historical_loop rnd 0 (basePrice name) historicalMonths)"
  have l: "length ?h = 8" by (simp add: historical_loop_length length_historicalMonths)
  then have ne: "?h \<noteq> []" by auto
  have "historicalMonths \<noteq> []" by (simp add: historicalMonths_def)
  from historical_loop_final [OF this, of rnd 0 "basePrice name"]
  have "PriceDataPoint.price (?h ! 7) = Some (snd (historical_loop rnd 0 (basePrice name) historicalMonths))"
    using ne l by (simp add: last_conv_nth)
  then show ?thesis
    using l by (simp add: generatePriceData_split nth_append)
qed

lemma js_round_near: "\<bar>js_round x - x\<bar> \<le> 1 / 2"
  using js_round_offset_bounds [of x] by linarith

lemma js_round_in_Ints: "js_round x \<in> \<int>"
  by (simp add: js_round_def)

text \<open>
  Claim C3, as the code has it. Each of the four prediction points, \<open>k = 0\<close> for
  \<open>Sep\<close> up to \<open>k = 3\<close> for \<open>Dec\<close>, has no historical price. Its prediction is an integer,
  the nearest one to the product of the last historical price with
  \<open>1 - 0.02 (k + 1) + e\<close>, where the perturbation \<open>e = (r - 0.5) * 0.1\<close> comes from the
  point's own draw \<open>r\<close> and lies between \<open>-0.05\<close> and \<open>0.05\<close>. So the drift grows by two
  percent of the last historical price a step, it does not compound, and no prediction
  depends on the one before. The model's prediction is within \<open>1/2\<close> of the product; the
  bound leaves \<open>1/1000\<close> for the error of the source's doubles, which on these prices,
  all below 250000, is below \<open>10^-9\<close>.
\<close>

theorem prediction_points_linear_drift:
  assumes "valid_random rnd" and "k < 4"
  shows "\<exists>cur pred.
           PriceDataPoint.price (generatePriceData name rnd ! 7) = Some cur
           \<and> generatePriceData name rnd ! (8 + k) =
               \<lparr>date = predictionMonths ! k, price = None, prediction = Some pred\<rparr>
           \<and> pred \<in> \<int>
           \<and> \<bar>pred - cur * (1 - (2 / 100) * (real k + 1) + (rnd (8 + k) - 1 / 2) * (1 / 10))\<bar>
               \<le> 1 / 2 + 1 / 1000
           \<and> - (5 / 100) \<le> (rnd (8 + k) - 1 / 2) * (1 / 10)
           \<and> (rnd (8 + k) - 1 / 2) * (1 / 10) < 5 / 100"
proof -
  let ?cur = "snd (historical_loop rnd 0 (basePrice name) historicalMonths)"
  let ?x = "?cur * (1 - (2 / 100) * (real k + 1) + (rnd (8 + k) - 1 / 2) * (1 / 10))"
  have "generatePriceData name rnd ! (8 + k) =
               \<lparr>date = predictionMonths ! k, price = None, prediction = Some (js_round ?x)\<rparr>"
    using generatePriceData_prediction [OF assms(2), of name rnd] by simp
  moreover have "\<bar>js_round ?x - ?x\<bar> \<le> 1 / 2 + 1 / 1000"
    using js_round_near [of ?x] by simp
  ultimately show ?thesis
    using generatePriceData_last_historical [of name rnd]
      perturbation_bounds [OF assms(1), of "8 + k"] js_round_in_Ints [of ?x]
    by blast
qed

lemma historical_loop_dates: "map PriceDataPoint.date (fst (historical_loop rnd k cur ms)) = ms"
  by (induction ms arbitrary: k cur) (simp_all add: Let_def case_prod_unfold)

lemma prediction_loop_dates: "map PriceDataPoint.date (prediction_loop rnd k cur idx ms) = ms"
  by (induction ms arbitrary: k idx) (simp_all add: Let_def)

lemma historical_loop_first:
  "PriceDataPoint.price (fst (historical_loop rnd k cur (m # rest)) ! 0)
     = Some (js_round (cur * (1 + (rnd k - 1 / 2) * (3 / 10))))"
  by (simp add: Let_def case_prod_unfold)

lemma generatePriceData_first:
  "PriceDataPoint.price (generatePriceData name rnd ! 0)
     = Some (js_round (basePrice name * (1 + (rnd 0 - 1 / 2) * (3 / 10))))"
proof -
  obtain m rest where ms: "historicalMonths = m # rest"
    by (simp add: historicalMonths_def)
  have "length (fst (historical_loop rnd 0 (basePrice name) historicalMonths)) = 8"
    by (simp add: historical_loop_length length_historicalMonths)
  then have "generatePriceData name rnd ! 0
           = fst (historical_loop rnd 0 (basePrice name) historicalMonths) ! 0"
    by (simp add: generatePriceData_split nth_append)
  then show ?thesis
    unfolding ms by (simp only: historical_loop_first)
qed

text \<open>
  Claim C8. For the name \<open>iPhone 15\<close> the first branch of the keyword table applies and
  gives the base price 50000, from which the first historical price is drawn; the series
  has twelve points, labelled \<open>Jan\<close> to \<open>Dec\<close>: eight historical points with a price
  and no prediction, then four prediction points with a prediction and no price.
\<close>

theorem iphone_series_shape:
  "basePrice ''iPhone 15'' = 50000
   \<and> length (generatePriceData ''iPhone 15'' rnd) = 12
   \<and> map PriceDataPoint.date (generatePriceData ''iPhone 15'' rnd)
       = historicalMonths @ predictionMonths
   \<and> PriceDataPoint.price (generatePriceData ''iPhone 15'' rnd ! 0)
       = Some (js_round (50000 * (1 + (rnd 0 - 1 / 2) * (3 / 10))))
   \<and> (\<forall>i < 8. PriceDataPoint.price (generatePriceData ''iPhone 15'' rnd ! i) \<noteq> None
              \<and> PriceDataPoint.prediction (generatePriceData ''iPhone 15'' rnd ! i) = None)
   \<and> (\<forall>i. 8 \<le> i \<and> i < 12 \<longrightarrow>
              PriceDataPoint.price (generatePriceData ''iPhone 15'' rnd ! i) = None
              \<and> PriceDataPoint.prediction (generatePriceData ''iPhone 15'' rnd ! i) \<noteq> None)"
proof -
  let ?g = "generatePriceData ''iPhone 15'' rnd"
  have d: "map PriceDataPoint.date ?g = historicalMonths @ predictionMonths"
    by (simp add: generatePriceData_split historical_loop_dates prediction_loop_dates)
  have f: "PriceDataPoint.price (?g ! 0) = Some (js_round (50000 * (1 + (rnd 0 - 1 / 2) * (3 / 10))))"
    using generatePriceData_first [of "''iPhone 15''" rnd] by (simp add: base_iphone)
  have h: "PriceDataPoint.price (?g ! i) \<noteq> None \<and> PriceDataPoint.prediction (?g ! i) = None"
    if "i < 8" for i
    using generatePriceData_historical [OF that, of "''iPhone 15''" rnd] by simp
  have p: "PriceDataPoint.price (?g ! i) = None \<and> PriceDataPoint.prediction (?g ! i) \<noteq> None"
    if "8 \<le> i" "i < 12" for i
  proof -
    define k where "k = i - 8"
    have k: "i = 8 + k" "k < 4"
      using that by (simp_all add: k_def)
    show ?thesis
      using generatePriceData_prediction [OF k(2), of "''iPhone 15''" rnd] k(1) by simp
  qed
  show ?thesis
    using base_iphone generatePriceData_length [of "''iPhone 15''" rnd] d f h p by simp
qed


lemma iphone_flat_series:
  "generatePriceData ''iPhone 15'' (const_draws (1 / 2)) =
    [\<lparr>date = ''Jan'', price = Some 50000, prediction = None\<rparr>,
     \<lparr>date = ''Feb'', price = Some 50000, prediction = None\<rparr>,
     \<lparr>date = ''Mar'', price = Some 50000, prediction = None\<rparr>,
     \<lparr>date = ''Apr'', price = Some 50000, prediction = None\<rparr>,
     \<lparr>date = ''May'', price = Some 50000, prediction = None\<rparr>,
     \<lparr>date = ''Jun'', price = Some 50000, prediction = None\<rparr>,
     \<lparr>date = ''Jul'', price = Some 50000, prediction = None\<rparr>,
     \<lparr>date = ''Aug'', price = Some 50000, prediction = None\<rparr>,
     \<lparr>date = ''Sep'', price = None, prediction = Some 49000\<rparr>,
     \<lparr>date = ''Oct'', price = None, prediction = Some 48000\<rparr>,
     \<lparr>date = ''Nov'', price = None, prediction = Some 47000\<rparr>,
     \<lparr>date = ''Dec'', price = None, prediction = Some 46000\<rparr>]"
  by code_simp

theorem iphone_series_shape_witness:
  "basePrice ''iPhone 15'' = 50000
   \<and> length (generatePriceData ''iPhone 15'' (const_draws (1 / 2))) = 12
   \<and> map PriceDataPoint.price (generatePriceData ''iPhone 15'' (const_draws (1 / 2)))
       = [Some 50000, Some 50000, Some 50000, Some 50000, Some 50000, Some 50000, Some 50000,
          Some 50000, None, None, None, None]
   \<and> map PriceDataPoint.prediction (generatePriceData ''iPhone 15'' (const_draws (1 / 2)))
       = [None, None, None, None, None, None, None, None,
          Some 49000, Some 48000, Some 47000, Some 46000]"
  using iphone_series_shape [of "const_draws (1 / 2)"]
  by (simp add: iphone_flat_series)

lemma iphone_drift_series:
  "generatePriceData ''iPhone 15'' drift_draws =
    [\<lparr>date = ''Jan'', price = Some 50000, prediction = None\<rparr>,
     \<lparr>date = ''Feb'', price = Some 50000, prediction = None\<rparr>,
     \<lparr>date = ''Mar'', price = Some 50000, prediction = None\<rparr>,
     \<lparr>date = ''Apr'', price = Some 50000, prediction = None\<rparr>,
     \<lparr>date = ''May'', price = Some 50000, prediction = None\<rparr>,
     \<lparr>date = ''Jun'', price = Some 50000, prediction = None\<rparr>,
     \<lparr>date = ''Jul'', price = Some 50000, prediction = None\<rparr>,
     \<lparr>date = ''Aug'', price = Some 50000, prediction = None\<rparr>,
     \<lparr>date = ''Sep'', price = None, prediction = Some 46500\<rparr>,
     \<lparr>date = ''Oct'', price = None, prediction = Some 50450\<rparr>,
     \<lparr>date = ''Nov'', price = None, prediction = Some 47000\<rparr>,
     \<lparr>date = ''Dec'', price = None, prediction = Some 43500\<rparr>]"
  by code_simp

theorem prediction_points_linear_drift_witness:
  "valid_random drift_draws \<and> (3::nat) < 4
   \<and> PriceDataPoint.price (generatePriceData ''iPhone 15'' drift_draws ! 7) = Some 50000
   \<and> generatePriceData ''iPhone 15'' drift_draws ! (8 + 3) =
        \<lparr>date = ''Dec'', price = None, prediction = Some 43500\<rparr>
   \<and> js_round (50000 * (1 - (2 / 100) * (real 3 + 1) + - (5 / 100))) = 43500
   \<and> \<bar>43500 - 50000 * (1 - (2 / 100) * (real 3 + 1) + (drift_draws 11 - 1 / 2) * (1 / 10))\<bar>
       \<le> (1 / 2 + 1 / 1000 :: real)"
proof -
  have h: "(3::nat) < 4" by simp
  have r: "js_round (50000 * (1 - (2 / 100) * (real 3 + 1) + - (5 / 100))) = 43500"
    by (simp add: js_round_def)
  show ?thesis
    using valid_drift_draws h
      prediction_points_linear_drift [OF valid_drift_draws h, of "''iPhone 15''"] r
    by (simp add: iphone_drift_series drift_draws_def)
qed

text \<open>
  With the draws \<open>drift_draws\<close> the last historical price of \<open>iPhone 15\<close> is 50000 and
  the predictions are 46500, 50450, 47000 and 43500. Claim C3 has a drift of two percent
  compounding per step on the running price. Were each prediction drawn from the one
  before, \<open>Oct\<close> would be at most \<open>46500 * (1 - 0.02 + 0.05)\<close>; were the drift compounded
  on the last historical price, \<open>Dec\<close> would be at least \<open>50000 * (0.98^4 - 0.05)\<close>.
\<close>

theorem prediction_points_compounding_counterexample:
  "map PriceDataPoint.prediction (drop 8 (generatePriceData ''iPhone 15'' drift_draws))
     = [Some 46500, Some 50450, Some 47000, Some 43500]
   \<and> PriceDataPoint.price (generatePriceData ''iPhone 15'' drift_draws ! 7) = Some 50000
   \<and> valid_random drift_draws
   \<and> (50450::real) > 46500 * (1 - 2 / 100 + 5 / 100)
   \<and> (43500::real) < 50000 * ((1 - 2 / 100) ^ 4 - 5 / 100)"
  using valid_drift_draws by (simp add: iphone_drift_series power_divide)

end
